theory Spec2Isabelle
  imports Complex_Main
begin

section \<open>JavaScript strings\<close>

text \<open>
  A JavaScript string is modelled as a \<^typ>\<open>string\<close>: a list of code units, here
  restricted to the 8-bit range (Latin-1), so \<open>length\<close> is the \<open>.length\<close> of the
  source. The white-space class is the one shared by \<open>String.prototype.trim\<close> and
  the regular-expression escape \<open>\s\<close>, cut down to that range: TAB, LF, VT, FF, CR,
  SPACE and NBSP.
\<close>

definition isWhiteSpace :: "char \<Rightarrow> bool" where
  "isWhiteSpace c =
     (c \<in> set [CHR 0x09, CHR 0x0A, CHR 0x0B, CHR 0x0C, CHR 0x0D, CHR 0x20, CHR 0xA0])"

definition isDigit :: "char \<Rightarrow> bool" where
  "isDigit c = (c \<in> set ''0123456789'')"

text \<open>\<open>s.trim()\<close>: white space removed from both ends.\<close>

definition js_trim :: "string \<Rightarrow> string" where
  "js_trim s = rev (dropWhile isWhiteSpace (rev (dropWhile isWhiteSpace s)))"

text \<open>
  \<open>s.split(c)\<close> for a one-character separator: the pieces between the occurrences of
  the separator; the empty string gives one empty piece.
\<close>

fun js_split_char :: "char \<Rightarrow> string \<Rightarrow> string list" where
  "js_split_char c [] = [[]]"
| "js_split_char c (x # xs) =
     (if x = c then [] # js_split_char c xs
      else (case js_split_char c xs of
              [] \<Rightarrow> [[x]]
            | t # ts \<Rightarrow> (x # t) # ts))"

text \<open>
  \<open>s.split(/\s+/)\<close>: the pieces between the maximal runs of white space. A run at
  either end leaves an empty piece there, and the empty string gives one empty piece,
  so the result is never empty.
\<close>

function js_split_ws :: "string \<Rightarrow> string list" where
  "js_split_ws [] = [[]]"
| "js_split_ws (c # cs) =
     (if isWhiteSpace c then [] # js_split_ws (dropWhile isWhiteSpace cs)
      else (case js_split_ws cs of
              [] \<Rightarrow> [[c]]
            | t # ts \<Rightarrow> (c # t) # ts))"
  by pat_completeness auto
termination
  by (relation "measure length") (auto simp: length_dropWhile_le less_Suc_eq_le)

text \<open>
  \<open>s.slice(b, e)\<close>: a negative index counts from the end of the string, both indices
  are clamped to the string, and an empty range gives the empty string.
\<close>

definition js_slice :: "string \<Rightarrow> int \<Rightarrow> int \<Rightarrow> string" where
  "js_slice s b e =
     (let n = int (length s);
          from = (if b < 0 then max (n + b) 0 else min b n);
          to = (if e < 0 then max (n + e) 0 else min e n)
      in take (nat (to - from)) (drop (nat from) s))"

text \<open>\<open>s[i]\<close>: \<open>undefined\<close> (here \<open>None\<close>) outside the string.\<close>

definition js_charAt :: "string \<Rightarrow> int \<Rightarrow> char option" where
  "js_charAt s i = (if 0 \<le> i \<and> i < int (length s) then Some (s ! nat i) else None)"

text \<open>
  \<open>s.lastIndexOf(pat, pos)\<close>: the greatest index, at most \<open>pos\<close> clamped to the
  string, at which \<open>pat\<close> occurs in \<open>s\<close>; \<open>-1\<close> when there is none.
\<close>

fun lastIndexFrom :: "string \<Rightarrow> string \<Rightarrow> nat \<Rightarrow> int" where
  "lastIndexFrom s pat 0 = (if take (length pat) s = pat then 0 else -1)"
| "lastIndexFrom s pat (Suc k) =
     (if take (length pat) (drop (Suc k) s) = pat then int (Suc k)
      else lastIndexFrom s pat k)"

definition js_lastIndexOf :: "string \<Rightarrow> string \<Rightarrow> int \<Rightarrow> int" where
  "js_lastIndexOf s pat pos =
     (if length s < length pat then -1
      else lastIndexFrom s pat (min (nat pos) (length s - length pat)))"

text \<open>\<open>s.includes(w)\<close>: \<open>w\<close> occurs in \<open>s\<close> as a contiguous piece; the empty string always does.\<close>

fun js_includes :: "string \<Rightarrow> string \<Rightarrow> bool" where
  "js_includes [] w = (w = [])"
| "js_includes (c # cs) w = (take (length w) (c # cs) = w \<or> js_includes cs w)"

text \<open>
  \<open>s.toLowerCase()\<close> on the 8-bit range: the letters A to Z and the Latin-1 capitals
  (0xC0 to 0xDE, the multiplication sign 0xD7 apart) move to their small forms.
\<close>

definition upperChars :: string where
  "upperChars = ''ABCDEFGHIJKLMNOPQRSTUVWXYZ'' @
     [CHR 0xC0, CHR 0xC1, CHR 0xC2, CHR 0xC3, CHR 0xC4, CHR 0xC5, CHR 0xC6, CHR 0xC7,
      CHR 0xC8, CHR 0xC9, CHR 0xCA, CHR 0xCB, CHR 0xCC, CHR 0xCD, CHR 0xCE, CHR 0xCF,
      CHR 0xD0, CHR 0xD1, CHR 0xD2, CHR 0xD3, CHR 0xD4, CHR 0xD5, CHR 0xD6,
      CHR 0xD8, CHR 0xD9, CHR 0xDA, CHR 0xDB, CHR 0xDC, CHR 0xDD, CHR 0xDE]"

definition lowerChars :: string where
  "lowerChars = ''abcdefghijklmnopqrstuvwxyz'' @
     [CHR 0xE0, CHR 0xE1, CHR 0xE2, CHR 0xE3, CHR 0xE4, CHR 0xE5, CHR 0xE6, CHR 0xE7,
      CHR 0xE8, CHR 0xE9, CHR 0xEA, CHR 0xEB, CHR 0xEC, CHR 0xED, CHR 0xEE, CHR 0xEF,
      CHR 0xF0, CHR 0xF1, CHR 0xF2, CHR 0xF3, CHR 0xF4, CHR 0xF5, CHR 0xF6,
      CHR 0xF8, CHR 0xF9, CHR 0xFA, CHR 0xFB, CHR 0xFC, CHR 0xFD, CHR 0xFE]"

definition toLowerChar :: "char \<Rightarrow> char" where
  "toLowerChar c = (case map_of (zip upperChars lowerChars) c of None \<Rightarrow> c | Some l \<Rightarrow> l)"

definition js_toLowerCase :: "string \<Rightarrow> string" where
  "js_toLowerCase s = map toLowerChar s"

text \<open>
  \<open>s.match(/\b\w+\b/g) || []\<close>: the maximal runs of word characters (ASCII letters,
  digits and the underscore), in order.
\<close>

definition isWordChar :: "char \<Rightarrow> bool" where
  "isWordChar c =
     (c \<in> set ''abcdefghijklmnopqrstuvwxyzABCDEFGHIJKLMNOPQRSTUVWXYZ0123456789_'')"

function js_match_words :: "string \<Rightarrow> string list" where
  "js_match_words [] = []"
| "js_match_words (c # cs) =
     (if isWordChar c
      then takeWhile isWordChar (c # cs) # js_match_words (dropWhile isWordChar cs)
      else js_match_words cs)"
  by pat_completeness auto
termination
  by (relation "measure length") (auto simp: length_dropWhile_le less_Suc_eq_le)

section \<open>JavaScript numbers\<close>

text \<open>
  Scores are JavaScript numbers. Finite values are modelled as real numbers, so
  rounding is left out; what is kept is what arithmetic does at the edges: a division by
  zero gives an infinity or \<open>NaN\<close>, \<open>NaN\<close> spreads through every operation, and every
  comparison with \<open>NaN\<close> is false. Zero has no sign here.
\<close>

datatype jsnum = Num real | PosInf | NegInf | NaN

fun js_neg :: "jsnum \<Rightarrow> jsnum" where
  "js_neg (Num a) = Num (- a)"
| "js_neg PosInf = NegInf"
| "js_neg NegInf = PosInf"
| "js_neg NaN = NaN"

fun js_add :: "jsnum \<Rightarrow> jsnum \<Rightarrow> jsnum" where
  "js_add NaN y = NaN"
| "js_add x NaN = NaN"
| "js_add (Num a) (Num b) = Num (a + b)"
| "js_add PosInf NegInf = NaN"
| "js_add NegInf PosInf = NaN"
| "js_add PosInf y = PosInf"
| "js_add NegInf y = NegInf"
| "js_add (Num a) y = y"

definition js_sub :: "jsnum \<Rightarrow> jsnum \<Rightarrow> jsnum" where
  "js_sub x y = js_add x (js_neg y)"

fun js_mul :: "jsnum \<Rightarrow> jsnum \<Rightarrow> jsnum" where
  "js_mul NaN y = NaN"
| "js_mul x NaN = NaN"
| "js_mul (Num a) (Num b) = Num (a * b)"
| "js_mul (Num a) y = (if a = 0 then NaN else if 0 < a then y else js_neg y)"
| "js_mul x (Num b) = (if b = 0 then NaN else if 0 < b then x else js_neg x)"
| "js_mul PosInf y = y"
| "js_mul NegInf y = js_neg y"

fun js_div :: "jsnum \<Rightarrow> jsnum \<Rightarrow> jsnum" where
  "js_div NaN y = NaN"
| "js_div x NaN = NaN"
| "js_div (Num a) (Num b) =
     (if b \<noteq> 0 then Num (a / b)
      else if a = 0 then NaN else if 0 < a then PosInf else NegInf)"
| "js_div (Num a) y = Num 0"
| "js_div x (Num b) = (if 0 \<le> b then x else js_neg x)"
| "js_div x y = NaN"

text \<open>\<open>x > y\<close>.\<close>

fun js_gt :: "jsnum \<Rightarrow> jsnum \<Rightarrow> bool" where
  "js_gt NaN y = False"
| "js_gt x NaN = False"
| "js_gt (Num a) (Num b) = (b < a)"
| "js_gt PosInf PosInf = False"
| "js_gt PosInf y = True"
| "js_gt x PosInf = False"
| "js_gt NegInf y = False"
| "js_gt x NegInf = True"

text \<open>\<open>Math.max(...xs)\<close> on finite numbers; with no argument it is \<open>-Infinity\<close>.\<close>

fun math_max :: "real list \<Rightarrow> jsnum" where
  "math_max [] = NegInf"
| "math_max (x # xs) = Num (fold max xs x)"

text \<open>\<open>v || 0\<close> on a number that may be absent: the number, and zero when it is absent.\<close>

definition orZero :: "real option \<Rightarrow> real" where
  "orZero v = (case v of None \<Rightarrow> 0 | Some x \<Rightarrow> x)"

section \<open>JavaScript arrays\<close>

text \<open>
  \<open>xs.sort(cmp)\<close>. The language fixes the result for a consistent comparator: the
  sort is stable and puts \<open>a\<close> after \<open>b\<close> only when \<open>cmp(a, b) > 0\<close>, a result
  of \<open>NaN\<close> counting as zero. The model is the stable insertion sort. For an
  inconsistent comparator the order is left to the implementation, and the order of the
  model is one of those allowed.
\<close>

fun js_insort :: "('a \<Rightarrow> 'a \<Rightarrow> jsnum) \<Rightarrow> 'a \<Rightarrow> 'a list \<Rightarrow> 'a list" where
  "js_insort cmp x [] = [x]"
| "js_insort cmp x (y # ys) =
     (if js_gt (cmp x y) (Num 0) then y # js_insort cmp x ys else x # y # ys)"

definition js_sort :: "('a \<Rightarrow> 'a \<Rightarrow> jsnum) \<Rightarrow> 'a list \<Rightarrow> 'a list" where
  "js_sort cmp xs = foldr (js_insort cmp) xs []"

text \<open>\<open>xs.slice(0, n)\<close>: a negative \<open>n\<close> counts from the end of the array.\<close>

definition js_slice0 :: "'a list \<Rightarrow> int \<Rightarrow> 'a list" where
  "js_slice0 xs n = (if n < 0 then take (nat (int (length xs) + n)) xs else take (nat n) xs)"

text \<open>\<open>xs.join(sep)\<close> on strings.\<close>

fun js_join :: "string \<Rightarrow> string list \<Rightarrow> string" where
  "js_join sep [] = []"
| "js_join sep [x] = x"
| "js_join sep (x # y # ys) = x @ sep @ js_join sep (y # ys)"

text \<open>The decimal rendering of an integer, as a template literal writes it.\<close>

function showNat :: "nat \<Rightarrow> string" where
  "showNat n =
     (if n < 10 then [''0123456789'' ! n]
      else showNat (n div 10) @ [''0123456789'' ! (n mod 10)])"
  by pat_completeness auto
termination
  by (relation "measure id") auto

definition showInt :: "int \<Rightarrow> string" where
  "showInt i = (if i < 0 then CHR ''-'' # showNat (nat (- i)) else showNat (nat i))"

section \<open>The text-generation collaborator\<close>

text \<open>
  The text-generation collaborator is outside the program. Its call either rejects
  (network failure, timeout, API error) or resolves to a completion object, of which
  the code reads \<open>completion.choices?.[0]?.message?.content\<close>: nothing (\<open>undefined\<close> or
  \<open>null\<close> somewhere along the optional chain), a string, or a value of another type.
\<close>

datatype chat_content = NoContent | TextContent string | OtherContent

datatype chat_outcome = Rejected | Completion chat_content

datatype js_error = CollaboratorError | TypeError

section \<open>Segmenter: the fixed-window chunkers\<close>

subsection \<open>\<open>chunkTextWithOverlap\<close>\<close>

text \<open>
  The two copies of \<open>chunkTextWithOverlap\<close> in the repository have the same body and
  differ in the default of \<open>overlap\<close> only; both parameters are arguments here. Sizes
  and offsets are integers (every call site passes integer literals), and the bound
  \<open>i > start + maxChunkSize * 0.5\<close> of the backward scan is written without the
  fraction as \<open>2 * i > 2 * start + maxChunkSize\<close>.
\<close>

definition isSentenceEnd :: "char option \<Rightarrow> bool" where
  "isSentenceEnd x =
     (case x of None \<Rightarrow> False
      | Some c \<Rightarrow> c \<in> set [CHR ''.'', CHR ''!'', CHR ''?'', CHR 0x0A])"

text \<open>
  The \<open>for\<close> loop that scans backward from \<open>end\<close> for a sentence terminator: the
  value of \<open>bestBreak\<close> after the loop when it is entered with index \<open>i\<close>.
\<close>

function findBreak :: "string \<Rightarrow> int \<Rightarrow> int \<Rightarrow> int \<Rightarrow> int" where
  "findBreak text start maxChunkSize i =
     (if 2 * i > 2 * start + maxChunkSize
      then (if isSentenceEnd (js_charAt text i) then i + 1
            else findBreak text start maxChunkSize (i - 1))
      else -1)"
  by pat_completeness auto
termination
  by (relation "measure (\<lambda>(text, start, maxChunkSize, i). nat (2 * i - (2 * start + maxChunkSize)))")
     auto

text \<open>The value of \<open>end\<close> once the break point has been looked for.\<close>

definition windowEnd :: "string \<Rightarrow> int \<Rightarrow> int \<Rightarrow> int" where
  "windowEnd text maxChunkSize start =
     (let end = min (start + maxChunkSize) (int (length text))
      in if end < int (length text)
         then (let bestBreak = findBreak text start maxChunkSize end
               in if bestBreak > -1 then bestBreak else end)
         else end)"

record chunk =
  chunk_text :: string
  chunk_start :: int
  chunk_end :: int

text \<open>The conditional \<open>chunks.push\<close>.\<close>

definition pushChunk :: "string \<Rightarrow> int \<Rightarrow> int \<Rightarrow> chunk list \<Rightarrow> chunk list" where
  "pushChunk text start end chunks =
     (let chunkText = js_trim (js_slice text start end)
      in if length chunkText > 50
         then chunks @ [\<lparr>chunk_text = chunkText, chunk_start = start, chunk_end = end\<rparr>]
         else chunks)"

text \<open>\<open>start = Math.max(start + 1, end - overlap)\<close>.\<close>

definition nextStart :: "int \<Rightarrow> int \<Rightarrow> int \<Rightarrow> int" where
  "nextStart start end overlap = max (start + 1) (end - overlap)"

text \<open>
  The \<open>while\<close> loop, entered with the current \<open>start\<close> and the chunks pushed so far.
  It is a partial function: \<open>None\<close> stands for a loop that never returns.
\<close>

partial_function (option) chunk_loop ::
  "string \<Rightarrow> int \<Rightarrow> int \<Rightarrow> int \<Rightarrow> chunk list \<Rightarrow> chunk list option" where
  "chunk_loop text maxChunkSize overlap start chunks =
     (if start < int (length text)
      then (let end = windowEnd text maxChunkSize start;
                chunks' = pushChunk text start end chunks;
                start' = nextStart start end overlap
            in if start' \<ge> int (length text) then Some chunks'
               else chunk_loop text maxChunkSize overlap start' chunks')
      else Some chunks)"

declare chunk_loop.simps [code]

definition chunkTextWithOverlap :: "string \<Rightarrow> int \<Rightarrow> int \<Rightarrow> chunk list option" where
  "chunkTextWithOverlap text maxChunkSize overlap = chunk_loop text maxChunkSize overlap 0 []"

subsection \<open>\<open>enhancedChunkTextWithOverlap\<close>\<close>

text \<open>
  The enhanced chunker looks for its break point with \<open>lastIndexOf\<close>, trying the
  separators in the order of the source and taking the first one found beyond the
  middle of the window.
\<close>

definition breakPoints :: "string list" where
  "breakPoints = [[CHR 0x0A, CHR 0x0A], ''. '', ''! '', ''? '', [CHR 0x0A]]"

fun findBreakPoint :: "string \<Rightarrow> int \<Rightarrow> int \<Rightarrow> int \<Rightarrow> string list \<Rightarrow> int" where
  "findBreakPoint text start maxChunkSize end [] = -1"
| "findBreakPoint text start maxChunkSize end (breakPoint # rest) =
     (let breakIndex = js_lastIndexOf text breakPoint end
      in if 2 * breakIndex > 2 * start + maxChunkSize
         then breakIndex + int (length breakPoint)
         else findBreakPoint text start maxChunkSize end rest)"

definition enhancedWindowEnd :: "string \<Rightarrow> int \<Rightarrow> int \<Rightarrow> int" where
  "enhancedWindowEnd text maxChunkSize start =
     (let end = min (start + maxChunkSize) (int (length text))
      in if end < int (length text)
         then (let bestBreak = findBreakPoint text start maxChunkSize end breakPoints
               in if bestBreak > -1 then bestBreak else end)
         else end)"

text \<open>
  An enhanced chunk carries metadata derived from its text. The keyword list and the
  importance score come from two local closures of the source, \<open>extractKeywords\<close> and
  \<open>calculateImportance\<close>, which read the chunk text and nothing else; they are
  arguments of the model, since no property below depends on what they compute.
\<close>

record enhanced_chunk = chunk +
  chunk_keywords :: "string list"
  chunk_importance :: real
  chunk_wordCount :: nat
  chunk_summary :: string

definition pushEnhancedChunk ::
  "(string \<Rightarrow> string list) \<Rightarrow> (string \<Rightarrow> real) \<Rightarrow> string \<Rightarrow> int \<Rightarrow> int \<Rightarrow>
   enhanced_chunk list \<Rightarrow> enhanced_chunk list" where
  "pushEnhancedChunk extractKeywords calculateImportance text start end chunks =
     (let chunkText = js_trim (js_slice text start end)
      in if length chunkText > 50
         then chunks @
           [\<lparr>chunk_text = chunkText, chunk_start = start, chunk_end = end,
             chunk_keywords = extractKeywords chunkText,
             chunk_importance = calculateImportance chunkText,
             chunk_wordCount = length (js_split_ws chunkText),
             chunk_summary = (if length chunkText > 200 then take 200 chunkText @ ''...''
                        else chunkText)\<rparr>]
         else chunks)"

partial_function (option) enhanced_loop ::
  "(string \<Rightarrow> string list) \<Rightarrow> (string \<Rightarrow> real) \<Rightarrow> string \<Rightarrow> int \<Rightarrow> int \<Rightarrow> int \<Rightarrow>
   enhanced_chunk list \<Rightarrow> enhanced_chunk list option" where
  "enhanced_loop extractKeywords calculateImportance text maxChunkSize overlap start chunks =
     (if start < int (length text)
      then (let end = enhancedWindowEnd text maxChunkSize start;
                chunks' = pushEnhancedChunk extractKeywords calculateImportance
                            text start end chunks;
                start' = nextStart start end overlap
            in if start' \<ge> int (length text) then Some chunks'
               else enhanced_loop extractKeywords calculateImportance
                      text maxChunkSize overlap start' chunks')
      else Some chunks)"

declare enhanced_loop.simps [code]

definition enhancedChunkTextWithOverlap ::
  "(string \<Rightarrow> string list) \<Rightarrow> (string \<Rightarrow> real) \<Rightarrow> string \<Rightarrow> int \<Rightarrow> int \<Rightarrow>
   enhanced_chunk list option" where
  "enhancedChunkTextWithOverlap extractKeywords calculateImportance text maxChunkSize overlap =
     enhanced_loop extractKeywords calculateImportance text maxChunkSize overlap 0 []"

subsection \<open>The windows of a run\<close>

text \<open>
  The windows \<open>(start, end)\<close> that the loop of a chunker visits, one per iteration, in
  order. The argument \<open>wend\<close> is the chunker's computation of the end of a window
  (\<^const>\<open>windowEnd\<close> or \<^const>\<open>enhancedWindowEnd\<close>). These lists are used to say
  which windows become chunks.
\<close>

function windowsFrom ::
  "(string \<Rightarrow> int \<Rightarrow> int \<Rightarrow> int) \<Rightarrow> string \<Rightarrow> int \<Rightarrow> int \<Rightarrow> int \<Rightarrow> (int \<times> int) list" where
  "windowsFrom wend text maxChunkSize overlap start =
     (if start < int (length text)
      then (start, wend text maxChunkSize start) #
           windowsFrom wend text maxChunkSize overlap
             (nextStart start (wend text maxChunkSize start) overlap)
      else [])"
  by pat_completeness auto
termination
  by (relation "measure (\<lambda>(wend, text, maxChunkSize, overlap, start). nat (int (length text) - start))")
     (auto simp: nextStart_def)

declare windowsFrom.simps [simp del]

text \<open>The trimmed text of a window, and the chunks made of it.\<close>

definition windowText :: "string \<Rightarrow> int \<times> int \<Rightarrow> string" where
  "windowText text w = js_trim (js_slice text (fst w) (snd w))"

definition windowChunk :: "string \<Rightarrow> int \<times> int \<Rightarrow> chunk" where
  "windowChunk text w =
     \<lparr>chunk_text = windowText text w, chunk_start = fst w, chunk_end = snd w\<rparr>"

definition windowEnhancedChunk ::
  "(string \<Rightarrow> string list) \<Rightarrow> (string \<Rightarrow> real) \<Rightarrow> string \<Rightarrow> int \<times> int \<Rightarrow> enhanced_chunk" where
  "windowEnhancedChunk extractKeywords calculateImportance text w =
     \<lparr>chunk_text = windowText text w, chunk_start = fst w, chunk_end = snd w,
      chunk_keywords = extractKeywords (windowText text w),
      chunk_importance = calculateImportance (windowText text w),
      chunk_wordCount = length (js_split_ws (windowText text w)),
      chunk_summary = (if length (windowText text w) > 200
                 then take 200 (windowText text w) @ ''...''
                 else windowText text w)\<rparr>"

subsection \<open>The page number stored with a chunk\<close>

text \<open>
  \<open>storePDFInWeaviate\<close> stores
  \<open>Math.floor((chunk.start / text.length) * numPages) + 1\<close>; the quotient and the
  product are taken in the real numbers.
\<close>

definition storedPageNumber :: "int \<Rightarrow> nat \<Rightarrow> int \<Rightarrow> int" where
  "storedPageNumber start textLength numPages =
     \<lfloor>(real_of_int start / real textLength) * real_of_int numPages\<rfloor> + 1"

section \<open>Retrieval fusion: \<open>fuseSearchResults\<close>\<close>

text \<open>
  A row returned by the store: the properties of the \<open>PDFDocument\<close> class that the
  code reads, and the numbers under \<open>_additional\<close>, each of which may be absent.
\<close>

record pdf_result =
  content :: string
  filename :: string
  pageNumber :: int
  chunkIndex :: int
  importance :: "real option"
  wordCount :: "int option"
  certainty :: "real option"
  distance :: "real option"
  score :: "real option"

text \<open>An entry of \<open>resultMap\<close>: the row spread into it, with the fields the fusion adds.\<close>

record fused_result =
  row :: pdf_result
  hybridScore :: jsnum
  vectorScore :: jsnum
  keywordScore :: jsnum
  vectorRank :: "nat option"
  keywordRank :: "nat option"

text \<open>The key \<open>`${result.filename}_${result.pageNumber}_${result.chunkIndex}`\<close>.\<close>

definition resultKey :: "pdf_result \<Rightarrow> string" where
  "resultKey result =
     filename result @ ''_'' @ showInt (pageNumber result) @ ''_'' @ showInt (chunkIndex result)"

text \<open>
  A \<open>Map\<close> keeps its keys in the order of their first insertion; it is modelled as an
  association list in that order. \<open>set\<close> on a key already there replaces the value
  and leaves the position.
\<close>

type_synonym result_map = "(string \<times> fused_result) list"

fun map_set :: "string \<Rightarrow> fused_result \<Rightarrow> result_map \<Rightarrow> result_map" where
  "map_set k v [] = [(k, v)]"
| "map_set k v ((k', v') # m) =
     (if k' = k then (k, v) # m else (k', v') # map_set k v m)"

definition map_values :: "result_map \<Rightarrow> fused_result list" where
  "map_values m = map snd m"

definition maxCertainty :: "pdf_result list \<Rightarrow> jsnum" where
  "maxCertainty vectorResults = math_max (map (\<lambda>r. orZero (certainty r)) vectorResults)"

definition maxBM25Score :: "pdf_result list \<Rightarrow> jsnum" where
  "maxBM25Score keywordResults = math_max (map (\<lambda>r. orZero (score r)) keywordResults)"

text \<open>The entry stored for a vector result; its score is divided by the maximum without a test.\<close>

definition vectorEntry :: "jsnum \<Rightarrow> real \<Rightarrow> pdf_result \<Rightarrow> nat \<Rightarrow> fused_result" where
  "vectorEntry maxC vectorWeight result index =
     (let normalizedScore = js_div (Num (orZero (certainty result))) maxC
      in \<lparr>row = result,
          hybridScore = js_mul normalizedScore (Num vectorWeight),
          vectorScore = normalizedScore,
          keywordScore = Num 0,
          vectorRank = Some (index + 1),
          keywordRank = None\<rparr>)"

text \<open>The first \<open>forEach\<close>, entered at \<open>index\<close> with the map built so far.\<close>

fun addVectorResults :: "jsnum \<Rightarrow> real \<Rightarrow> pdf_result list \<Rightarrow> nat \<Rightarrow> result_map \<Rightarrow> result_map" where
  "addVectorResults maxC vectorWeight [] index m = m"
| "addVectorResults maxC vectorWeight (result # rest) index m =
     addVectorResults maxC vectorWeight rest (index + 1)
       (map_set (resultKey result) (vectorEntry maxC vectorWeight result index) m)"

text \<open>The normalised score of a keyword result: zero unless the maximum is positive.\<close>

definition keywordNormalized :: "jsnum \<Rightarrow> pdf_result \<Rightarrow> jsnum" where
  "keywordNormalized maxB result =
     (if js_gt maxB (Num 0) then js_div (Num (orZero (score result))) maxB else Num 0)"

text \<open>
  One step of the second \<open>forEach\<close>: a key already in the map (\<open>has\<close>, then
  \<open>get\<close>) has its entry updated in place, a new key is added at the end.
\<close>

definition mergeKeywordResult :: "jsnum \<Rightarrow> real \<Rightarrow> pdf_result \<Rightarrow> nat \<Rightarrow> result_map \<Rightarrow> result_map" where
  "mergeKeywordResult maxB keywordWeight result index m =
     (let normalizedScore = keywordNormalized maxB result;
          key = resultKey result
      in case map_of m key of
           Some existing \<Rightarrow>
             map_set key
               (existing\<lparr>hybridScore :=
                            js_add (hybridScore existing) (js_mul normalizedScore (Num keywordWeight)),
                          keywordScore := normalizedScore,
                          keywordRank := Some (index + 1)\<rparr>) m
         | None \<Rightarrow>
             map_set key
               \<lparr>row = result,
                hybridScore = js_mul normalizedScore (Num keywordWeight),
                vectorScore = Num 0,
                keywordScore = normalizedScore,
                vectorRank = None,
                keywordRank = Some (index + 1)\<rparr> m)"

fun addKeywordResults :: "jsnum \<Rightarrow> real \<Rightarrow> pdf_result list \<Rightarrow> nat \<Rightarrow> result_map \<Rightarrow> result_map" where
  "addKeywordResults maxB keywordWeight [] index m = m"
| "addKeywordResults maxB keywordWeight (result # rest) index m =
     addKeywordResults maxB keywordWeight rest (index + 1)
       (mergeKeywordResult maxB keywordWeight result index m)"

text \<open>The map when both lists have been read, and its values in insertion order.\<close>

definition fusedEntries :: "pdf_result list \<Rightarrow> pdf_result list \<Rightarrow> real \<Rightarrow> fused_result list" where
  "fusedEntries vectorResults keywordResults vectorWeight =
     (let keywordWeight = 1 - vectorWeight;
          m1 = addVectorResults (maxCertainty vectorResults) vectorWeight vectorResults 0 [];
          m2 = addKeywordResults (maxBM25Score keywordResults) keywordWeight keywordResults 0 m1
      in map_values m2)"

text \<open>The comparator \<open>(a, b) => b.hybridScore - a.hybridScore\<close>.\<close>

definition byHybridScore :: "fused_result \<Rightarrow> fused_result \<Rightarrow> jsnum" where
  "byHybridScore a b = js_sub (hybridScore b) (hybridScore a)"

definition fuseSearchResults ::
  "pdf_result list \<Rightarrow> pdf_result list \<Rightarrow> real \<Rightarrow> int \<Rightarrow> fused_result list" where
  "fuseSearchResults vectorResults keywordResults vectorWeight limit =
     js_slice0 (js_sort byHybridScore (fusedEntries vectorResults keywordResults vectorWeight))
       limit"

text \<open>
  The tie-break of the specification, as a relation between two entries: the entry with
  the smaller vector rank comes first, an entry with a vector rank comes before one
  without, and between two entries without a vector rank the one with the smaller
  keyword rank comes first.
\<close>

definition rankBefore :: "fused_result \<Rightarrow> fused_result \<Rightarrow> bool" where
  "rankBefore a b =
     (case (vectorRank a, vectorRank b) of
        (Some i, Some j) \<Rightarrow> i < j
      | (Some i, None) \<Rightarrow> True
      | (None, Some j) \<Rightarrow> False
      | (None, None) \<Rightarrow>
          (case (keywordRank a, keywordRank b) of
             (Some i, Some j) \<Rightarrow> i < j
           | _ \<Rightarrow> False))"

section \<open>Ranking and diversification: \<open>ResultRanker\<close>\<close>

text \<open>
  \<open>calculateRelevanceScore(result, query, queryEmbedding)\<close>; the embedding is not
  read. A distance, an importance or a word count that is absent or zero is falsy and
  takes the other branch. The list of query words is never empty
  (\<^const>\<open>js_split_ws\<close> returns at least one piece), so the quotient is a division by
  a positive number.
\<close>

definition calculateRelevanceScore :: "pdf_result \<Rightarrow> string \<Rightarrow> real" where
  "calculateRelevanceScore result query =
     (let score0 = (case distance result of
                      Some d \<Rightarrow> if d \<noteq> 0 then 1 - d else 0.5
                    | None \<Rightarrow> 0.5);
          queryWords = js_split_ws (js_toLowerCase query);
          contentWords = js_toLowerCase (content result);
          keywordMatches = length (filter (\<lambda>word. js_includes contentWords word) queryWords);
          score1 = score0 + (real keywordMatches / real (length queryWords)) * 0.3;
          score2 = (case importance result of
                      Some i \<Rightarrow> if i \<noteq> 0 then score1 + i * 0.2 else score1
                    | None \<Rightarrow> score1);
          score3 = (if js_includes contentWords (js_toLowerCase query)
                    then score2 + 0.3 else score2);
          wc = (case wordCount result of
                  Some n \<Rightarrow> if n \<noteq> 0 then n else int (length (js_split_ws (content result)))
                | None \<Rightarrow> int (length (js_split_ws (content result))));
          score4 = (if wc < 20 \<or> wc > 500 then score3 * 0.8 else score3)
      in min score4 1.0)"

text \<open>
  \<open>calculateTextSimilarity\<close>: the two sets of lower-case word tokens, the size of
  their intersection over the size of their union. With no token on either side the
  quotient is \<open>0 / 0\<close>.
\<close>

definition calculateTextSimilarity :: "string \<Rightarrow> string \<Rightarrow> jsnum" where
  "calculateTextSimilarity text1 text2 =
     (let words1 = remdups (js_match_words (js_toLowerCase text1));
          words2 = remdups (js_match_words (js_toLowerCase text2));
          intersection = filter (\<lambda>x. x \<in> set words2) words1;
          union = remdups (words1 @ words2)
      in js_div (Num (real (length intersection))) (Num (real (length union))))"

text \<open>
  The inner loop of \<open>diversifyResults\<close> clears \<open>shouldInclude\<close> as soon as one
  selected result is more similar to the candidate than \<open>maxSimilarity\<close>.
\<close>

definition shouldInclude :: "real \<Rightarrow> pdf_result list \<Rightarrow> pdf_result \<Rightarrow> bool" where
  "shouldInclude maxSimilarity diversified candidate =
     (\<not> list_ex (\<lambda>selected.
           js_gt (calculateTextSimilarity (content candidate) (content selected))
                 (Num maxSimilarity)) diversified)"

fun diversify_loop :: "real \<Rightarrow> pdf_result list \<Rightarrow> pdf_result list \<Rightarrow> pdf_result list" where
  "diversify_loop maxSimilarity [] diversified = diversified"
| "diversify_loop maxSimilarity (candidate # rest) diversified =
     (if shouldInclude maxSimilarity diversified candidate
      then diversify_loop maxSimilarity rest (diversified @ [candidate])
      else diversify_loop maxSimilarity rest diversified)"

definition diversifyResults :: "pdf_result list \<Rightarrow> real \<Rightarrow> pdf_result list" where
  "diversifyResults results maxSimilarity =
     (if length results \<le> 1 then results
      else diversify_loop maxSimilarity (tl results) [hd results])"

section \<open>Synthesis: \<open>DocumentSynthesizer.synthesizeResults\<close>\<close>

text \<open>
  \<open>docGroups\<close> is a plain object used as a dictionary. A key that names a property
  inherited from \<open>Object.prototype\<close> reads as a value that is truthy and has no
  \<open>push\<close>, so grouping under it throws a \<open>TypeError\<close>; this happens before the
  \<open>try\<close> block.
\<close>

definition inheritedKeys :: "string list" where
  "inheritedKeys =
     [''constructor'', ''hasOwnProperty'', ''isPrototypeOf'', ''propertyIsEnumerable'',
      ''toLocaleString'', ''toString'', ''valueOf'', ''__proto__'',
      ''__defineGetter__'', ''__defineSetter__'', ''__lookupGetter__'', ''__lookupSetter__'']"

type_synonym doc_groups = "(string \<times> pdf_result list) list"

fun group_push :: "string \<Rightarrow> pdf_result \<Rightarrow> doc_groups \<Rightarrow> doc_groups" where
  "group_push k r [] = [(k, [r])]"
| "group_push k r ((k', rs) # g) =
     (if k' = k then (k, rs @ [r]) # g else (k', rs) # group_push k r g)"

fun groupByDocument :: "pdf_result list \<Rightarrow> doc_groups \<Rightarrow> js_error + doc_groups" where
  "groupByDocument [] g = Inr g"
| "groupByDocument (result # rest) g =
     (let docKey = (if filename result = [] then ''unknown'' else filename result)
      in if docKey \<in> set inheritedKeys then Inl TypeError
         else groupByDocument rest (group_push docKey result g))"

text \<open>
  \<open>Object.entries\<close> lists the keys that are array indices first, in increasing
  numeric order, then the other keys in insertion order. An array index is the decimal
  form, without leading zeros, of a number below \<open>2^32 - 1\<close>.
\<close>

definition digitValue :: "char \<Rightarrow> int" where
  "digitValue c =
     (case map_of (zip ''0123456789'' [0, 1, 2, 3, 4, 5, 6, 7, 8, 9]) c of
        None \<Rightarrow> 0 | Some d \<Rightarrow> d)"

definition parseIndex :: "string \<Rightarrow> int" where
  "parseIndex s = foldl (\<lambda>n c. 10 * n + digitValue c) 0 s"

definition isArrayIndex :: "string \<Rightarrow> bool" where
  "isArrayIndex s =
     (s \<noteq> [] \<and> list_all isDigit s \<and> (s = ''0'' \<or> hd s \<noteq> CHR ''0'') \<and>
      length s \<le> 10 \<and> parseIndex s < 4294967295)"

definition object_entries :: "doc_groups \<Rightarrow> doc_groups" where
  "object_entries g =
     sort_key (\<lambda>e. parseIndex (fst e)) (filter (\<lambda>e. isArrayIndex (fst e)) g) @
     filter (\<lambda>e. \<not> isArrayIndex (fst e)) g"

text \<open>The excerpt block of the prompt, and the user message built around it.\<close>

definition documentBlock :: "string \<times> pdf_result list \<Rightarrow> string" where
  "documentBlock e =
     ''Document: '' @ fst e @ [CHR 0x0A] @ ''Content: '' @
     take 1000 (js_join [CHR 0x0A, CHR 0x0A] (map content (snd e))) @ ''...''"

definition synthesisBlock :: "doc_groups \<Rightarrow> string" where
  "synthesisBlock g =
     js_join ([CHR 0x0A, CHR 0x0A] @ ''---'' @ [CHR 0x0A, CHR 0x0A])
       (map documentBlock (object_entries g))"

definition userMessage :: "string \<Rightarrow> string \<Rightarrow> string" where
  "userMessage query synthesis =
     ''Query: '' @ [CHR 0x22] @ query @ [CHR 0x22] @ [CHR 0x0A, CHR 0x0A] @
     ''Multiple Document Excerpts:'' @ [CHR 0x0A] @ synthesis @ [CHR 0x0A, CHR 0x0A] @
     ''Please provide a comprehensive synthesis that answers the query using information from all relevant documents. Include document citations where appropriate.''"

text \<open>
  What the function gives back: \<open>null\<close>, or whatever
  \<open>completion.choices?.[0]?.message?.content\<close> holds (a text, possibly empty,
  nothing, or a value of another type).
\<close>

datatype synthesis = Null | Returned chat_content

text \<open>
  The collaborator is a function from the user message to the outcome of the call (the
  system message is a constant of the source). The result list may be missing
  (\<open>None\<close>). An exception thrown before the \<open>try\<close> block leaves the function, one
  thrown by the call is caught and gives \<open>null\<close>.
\<close>

definition synthesizeResults ::
  "pdf_result list option \<Rightarrow> string \<Rightarrow> (string \<Rightarrow> chat_outcome) \<Rightarrow> js_error + synthesis" where
  "synthesizeResults results query openai =
     (case results of
        None \<Rightarrow> Inr Null
      | Some rs \<Rightarrow>
          if length rs = 0 then Inr Null
          else (case groupByDocument rs [] of
                  Inl e \<Rightarrow> Inl e
                | Inr docGroups \<Rightarrow>
                    (case openai (userMessage query (synthesisBlock docGroups)) of
                       Rejected \<Rightarrow> Inr Null
                     | Completion c \<Rightarrow> Inr (Returned c))))"

section \<open>Query expansion: \<open>QueryRefiner.generateQueryVariations\<close>\<close>

text \<open>\<open>line.replace(/^\d+\.\s*/, '')\<close>: a leading list number, its dot and the white space after it are removed.\<close>

definition stripNumbering :: "string \<Rightarrow> string" where
  "stripNumbering line =
     (let digits = takeWhile isDigit line; rest = dropWhile isDigit line
      in if digits \<noteq> [] \<and> rest \<noteq> [] \<and> hd rest = CHR ''.''
         then dropWhile isWhiteSpace (tl rest) else line)"

text \<open>
  The body of the \<open>try\<close> block. A rejected call throws; so does \<open>.split\<close> on a content
  that is not a string. An absent content short-circuits the whole optional chain and
  \<open>|| []\<close> supplies the empty list.
\<close>

fun variations_try :: "string \<Rightarrow> chat_outcome \<Rightarrow> js_error + string list" where
  "variations_try originalQuery Rejected = Inl CollaboratorError"
| "variations_try originalQuery (Completion OtherContent) = Inl TypeError"
| "variations_try originalQuery (Completion NoContent) = Inr [originalQuery]"
| "variations_try originalQuery (Completion (TextContent s)) =
     Inr (originalQuery #
          take 5 (map (\<lambda>line. js_trim (stripNumbering line))
                    (filter (\<lambda>line. js_trim line \<noteq> []) (js_split_char (CHR 0x0A) s))))"

text \<open>The whole function: the \<open>catch\<close> block turns every exception into \<open>[originalQuery]\<close>.\<close>

definition generateQueryVariations :: "string \<Rightarrow> chat_outcome \<Rightarrow> js_error + string list" where
  "generateQueryVariations originalQuery outcome =
     (case variations_try originalQuery outcome of
        Inl e \<Rightarrow> Inr [originalQuery]
      | Inr vs \<Rightarrow> Inr vs)"

section \<open>Properties of the fixed-window chunkers\<close>

lemma nextStart_gt: "start < nextStart start e ov"
  by (simp add: nextStart_def)

lemma chunk_loop_returns: "\<exists>cs. chunk_loop t m ov start chunks = Some cs"
proof (induction "nat (int (length t) - start)" arbitrary: start chunks rule: less_induct)
  case less
  show ?case
  proof (cases "start < int (length t)")
    case False
    then show ?thesis by (subst chunk_loop.simps) simp
  next
    case True
    let ?e = "windowEnd t m start"
    let ?s = "nextStart start ?e ov"
    show ?thesis
    proof (cases "?s \<ge> int (length t)")
      case True
      with \<open>start < int (length t)\<close> show ?thesis
        by (subst chunk_loop.simps) (simp add: Let_def)
    next
      case False
      have "nat (int (length t) - ?s) < nat (int (length t) - start)"
        using nextStart_gt[of start ?e ov] True by linarith
      from less[OF this] obtain cs where
        "chunk_loop t m ov ?s (pushChunk t start ?e chunks) = Some cs" by blast
      with True False show ?thesis
        by (subst chunk_loop.simps) (simp add: Let_def)
    qed
  qed
qed

text \<open>
  Claim C7. In every iteration of the loop of \<open>chunkTextWithOverlap\<close> the next start
  index is strictly greater than the current one, and the function returns a list of
  chunks for every text, every \<open>maxChunkSize\<close> and every \<open>overlap\<close>.
\<close>

theorem chunkTextWithOverlap_terminates:
  "start < nextStart start (windowEnd text maxChunkSize start) overlap \<and>
   (\<exists>chunks. chunkTextWithOverlap text maxChunkSize overlap = Some chunks)"
  using chunk_loop_returns[of "text" maxChunkSize overlap 0 "[]"]
  by (simp add: chunkTextWithOverlap_def nextStart_gt)

theorem chunkTextWithOverlap_terminates_witness:
  "(0::int) < nextStart 0 (windowEnd ''A. B. C. D.'' 5 0) 9 \<and>
   chunkTextWithOverlap ''A. B. C. D.'' 5 9 = Some [] \<and>
   chunkTextWithOverlap [] 0 0 = Some []"
proof -
  have "chunkTextWithOverlap ''A. B. C. D.'' 5 9 = Some []" by code_simp
  moreover have "chunkTextWithOverlap [] 0 0 = Some []" by code_simp
  ultimately show ?thesis
    using chunkTextWithOverlap_terminates[of 0 "''A. B. C. D.''" 5 9] by simp
qed

subsection \<open>Which windows become chunks\<close>

lemma windowsFrom_done:
  "\<not> start < int (length t) \<Longrightarrow> windowsFrom wend t m ov start = []"
  by (subst windowsFrom.simps) simp

lemma windowsFrom_step:
  "start < int (length t) \<Longrightarrow>
   windowsFrom wend t m ov start =
     (start, wend t m start) # windowsFrom wend t m ov (nextStart start (wend t m start) ov)"
  by (subst windowsFrom.simps) simp

lemma pushChunk_eq:
  "pushChunk t s e chunks =
     chunks @ map (windowChunk t) (filter (\<lambda>w. 50 < length (windowText t w)) [(s, e)])"
  by (simp add: pushChunk_def windowChunk_def windowText_def Let_def)

lemma pushEnhancedChunk_eq:
  "pushEnhancedChunk kw imp t s e chunks =
     chunks @ map (windowEnhancedChunk kw imp t)
                (filter (\<lambda>w. 50 < length (windowText t w)) [(s, e)])"
  by (simp add: pushEnhancedChunk_def windowEnhancedChunk_def windowText_def Let_def)

lemma chunk_loop_windows:
  "chunk_loop t m ov start chunks =
     Some (chunks @ map (windowChunk t)
             (filter (\<lambda>w. 50 < length (windowText t w)) (windowsFrom windowEnd t m ov start)))"
proof (induction windowEnd t m ov start arbitrary: chunks rule: windowsFrom.induct)
  case (1 t m ov start)
  show ?case
  proof (cases "start < int (length t)")
    case False
    then show ?thesis by (subst chunk_loop.simps) (simp add: windowsFrom_done)
  next
    case True
    let ?e = "windowEnd t m start"
    let ?s = "nextStart start ?e ov"
    show ?thesis
    proof (cases "?s \<ge> int (length t)")
      case True
      then have "windowsFrom windowEnd t m ov ?s = []" by (simp add: windowsFrom_done)
      with True \<open>start < int (length t)\<close> show ?thesis
        by (subst chunk_loop.simps) (simp add: Let_def pushChunk_eq windowsFrom_step)
    next
      case False
      have "chunk_loop t m ov start chunks =
            chunk_loop t m ov ?s (pushChunk t start ?e chunks)"
        using True False by (subst chunk_loop.simps) (simp add: Let_def)
      also have "\<dots> = Some (pushChunk t start ?e chunks @ map (windowChunk t)
             (filter (\<lambda>w. 50 < length (windowText t w)) (windowsFrom windowEnd t m ov ?s)))"
        using "1.hyps"[OF True] by simp
      finally show ?thesis using True
        by (simp add: pushChunk_eq windowsFrom_step)
    qed
  qed
qed

lemma enhanced_loop_windows:
  "enhanced_loop kw imp t m ov start chunks =
     Some (chunks @ map (windowEnhancedChunk kw imp t)
             (filter (\<lambda>w. 50 < length (windowText t w))
                (windowsFrom enhancedWindowEnd t m ov start)))"
proof (induction enhancedWindowEnd t m ov start arbitrary: chunks rule: windowsFrom.induct)
  case (1 t m ov start)
  show ?case
  proof (cases "start < int (length t)")
    case False
    then show ?thesis by (subst enhanced_loop.simps) (simp add: windowsFrom_done)
  next
    case True
    let ?e = "enhancedWindowEnd t m start"
    let ?s = "nextStart start ?e ov"
    show ?thesis
    proof (cases "?s \<ge> int (length t)")
      case True
      then have "windowsFrom enhancedWindowEnd t m ov ?s = []" by (simp add: windowsFrom_done)
      with True \<open>start < int (length t)\<close> show ?thesis
        by (subst enhanced_loop.simps) (simp add: Let_def pushEnhancedChunk_eq windowsFrom_step)
    next
      case False
      have "enhanced_loop kw imp t m ov start chunks =
            enhanced_loop kw imp t m ov ?s (pushEnhancedChunk kw imp t start ?e chunks)"
        using True False by (subst enhanced_loop.simps) (simp add: Let_def)
      also have "\<dots> = Some (pushEnhancedChunk kw imp t start ?e chunks @
             map (windowEnhancedChunk kw imp t)
               (filter (\<lambda>w. 50 < length (windowText t w))
                  (windowsFrom enhancedWindowEnd t m ov ?s)))"
        using "1.hyps"[OF True] by simp
      finally show ?thesis using True
        by (simp add: pushEnhancedChunk_eq windowsFrom_step)
    qed
  qed
qed

lemma windowsFrom_start:
  "0 \<le> start \<Longrightarrow> w \<in> set (windowsFrom wend t m ov start) \<Longrightarrow>
   0 \<le> fst w \<and> fst w < int (length t)"
proof (induction wend t m ov start rule: windowsFrom.induct)
  case (1 wend t m ov start)
  show ?case
  proof (cases "start < int (length t)")
    case False
    with "1.prems" show ?thesis by (simp add: windowsFrom_done)
  next
    case True
    from "1.prems"(2) True have
      "w = (start, wend t m start) \<or>
       w \<in> set (windowsFrom wend t m ov (nextStart start (wend t m start) ov))"
      by (simp add: windowsFrom_step)
    then show ?thesis
    proof
      assume "w = (start, wend t m start)"
      with True "1.prems"(1) show ?thesis by simp
    next
      assume a: "w \<in> set (windowsFrom wend t m ov (nextStart start (wend t m start) ov))"
      have "0 \<le> nextStart start (wend t m start) ov"
        using nextStart_gt[of start "wend t m start" ov] "1.prems"(1) by linarith
      from "1.IH"[OF True this a] show ?thesis .
    qed
  qed
qed

text \<open>
  Claim C8, as the code has it. A window of either fixed-window chunker becomes a chunk
  exactly when its trimmed text is longer than 50 characters (51 or more): the chunks
  returned are those of the windows visited that pass this test, in order. A window
  whose trimmed text has exactly 50 characters is dropped.
\<close>

theorem chunkers_emit_longer_than_50:
  "chunkTextWithOverlap text maxChunkSize overlap =
     Some (map (windowChunk text)
            (filter (\<lambda>w. 50 < length (windowText text w))
               (windowsFrom windowEnd text maxChunkSize overlap 0))) \<and>
   enhancedChunkTextWithOverlap extractKeywords calculateImportance text maxChunkSize overlap =
     Some (map (windowEnhancedChunk extractKeywords calculateImportance text)
            (filter (\<lambda>w. 50 < length (windowText text w))
               (windowsFrom enhancedWindowEnd text maxChunkSize overlap 0)))"
  by (simp add: chunkTextWithOverlap_def enhancedChunkTextWithOverlap_def
        chunk_loop_windows enhanced_loop_windows)

theorem chunkers_emit_longer_than_50_witness:
  "hd (windowsFrom windowEnd (replicate 51 (CHR ''a'')) 1000 100 0) = (0, 51) \<and>
   length (windowText (replicate 51 (CHR ''a'')) (0, 51)) = 51 \<and>
   chunkTextWithOverlap (replicate 51 (CHR ''a'')) 1000 100 =
     Some [\<lparr>chunk_text = replicate 51 (CHR ''a''), chunk_start = 0, chunk_end = 51\<rparr>]"
proof -
  have "hd (windowsFrom windowEnd (replicate 51 (CHR ''a'')) 1000 100 0) = (0, 51)"
    by code_simp
  moreover have "length (windowText (replicate 51 (CHR ''a'')) (0, 51)) = 51"
    by code_simp
  moreover have
    "map (windowChunk (replicate 51 (CHR ''a'')))
       (filter (\<lambda>w. 50 < length (windowText (replicate 51 (CHR ''a'')) w))
          (windowsFrom windowEnd (replicate 51 (CHR ''a'')) 1000 100 0)) =
     [\<lparr>chunk_text = replicate 51 (CHR ''a''), chunk_start = 0, chunk_end = 51\<rparr>]"
    by code_simp
  ultimately show ?thesis
    using chunkers_emit_longer_than_50[of "replicate 51 (CHR ''a'')" 1000 100] by simp
qed

text \<open>
  The claim as the specification words it fails: in a text of 50 characters the first
  window has a trimmed text of exactly 50 characters, and no chunk is returned.
\<close>

theorem chunk_of_50_dropped:
  "hd (windowsFrom windowEnd (replicate 50 (CHR ''a'')) 1000 100 0) = (0, 50) \<and>
   length (windowText (replicate 50 (CHR ''a'')) (0, 50)) = 50 \<and>
   chunkTextWithOverlap (replicate 50 (CHR ''a'')) 1000 100 = Some []"
  by code_simp

subsection \<open>Page numbers\<close>

lemma storedPageNumber_range:
  assumes "0 \<le> s" "s < int n" "0 < numPages"
  shows "1 \<le> storedPageNumber s n numPages \<and> storedPageNumber s n numPages \<le> numPages"
proof -
  have npos: "0 < real n" using assms by linarith
  let ?x = "(real_of_int s / real n) * real_of_int numPages"
  have "0 \<le> real_of_int s / real n" using assms npos by simp
  then have x0: "0 \<le> ?x" using assms by simp
  have "real_of_int s / real n < 1" using assms npos by simp
  then have "?x < 1 * real_of_int numPages"
    using assms(3) by (intro mult_strict_right_mono) simp_all
  then have x1: "?x < real_of_int numPages" by simp
  from x0 have "0 \<le> \<lfloor>?x\<rfloor>" by simp
  moreover from x1 have "\<lfloor>?x\<rfloor> < numPages" by (simp add: floor_less_iff)
  ultimately show ?thesis by (simp add: storedPageNumber_def)
qed

text \<open>
  Claim C10. For every chunk that \<open>chunkTextWithOverlap\<close> returns and every positive
  \<open>numPages\<close>, the page number stored with the chunk lies between 1 and \<open>numPages\<close>.
\<close>

theorem chunk_pageNumber_in_range:
  assumes "chunkTextWithOverlap text maxChunkSize overlap = Some chunks"
    and "c \<in> set chunks"
    and "0 < numPages"
  shows "1 \<le> storedPageNumber (chunk_start c) (length text) numPages \<and>
         storedPageNumber (chunk_start c) (length text) numPages \<le> numPages"
proof -
  from assms(1) have "chunks = map (windowChunk text)
      (filter (\<lambda>w. 50 < length (windowText text w))
         (windowsFrom windowEnd text maxChunkSize overlap 0))"
    by (simp add: chunkTextWithOverlap_def chunk_loop_windows)
  with assms(2) obtain w where
    w: "w \<in> set (windowsFrom windowEnd text maxChunkSize overlap 0)" and c: "c = windowChunk text w"
    by auto
  from windowsFrom_start[OF _ w] have "0 \<le> fst w \<and> fst w < int (length text)" by simp
  with c have "0 \<le> chunk_start c" "chunk_start c < int (length text)"
    by (simp_all add: windowChunk_def)
  then show ?thesis using assms(3) by (rule storedPageNumber_range)
qed

theorem chunk_pageNumber_in_range_witness:
  "chunkTextWithOverlap (replicate 52 (CHR ''a'')) 800 200 =
     Some [\<lparr>chunk_text = replicate 52 (CHR ''a''), chunk_start = 0, chunk_end = 52\<rparr>,
           \<lparr>chunk_text = replicate 51 (CHR ''a''), chunk_start = 1, chunk_end = 52\<rparr>] \<and>
   (0::int) < 3 \<and>
   1 \<le> storedPageNumber 1 52 3 \<and> storedPageNumber 1 52 3 \<le> 3"
proof -
  let ?c0 = "\<lparr>chunk_text = replicate 52 (CHR ''a''), chunk_start = 0, chunk_end = 52\<rparr>"
  let ?c1 = "\<lparr>chunk_text = replicate 51 (CHR ''a''), chunk_start = 1, chunk_end = 52\<rparr>"
  have h: "chunkTextWithOverlap (replicate 52 (CHR ''a'')) 800 200 = Some [?c0, ?c1]"
    by code_simp
  have m: "?c1 \<in> set [?c0, ?c1]" by simp
  have p: "(0::int) < 3" by simp
  from chunk_pageNumber_in_range[OF h m p] h show ?thesis by simp
qed

section \<open>Properties of retrieval fusion\<close>

text \<open>
  Claim C1. The keyword list is normalised under the guard \<open>maxBM25Score > 0\<close>; the
  vector list is divided by its maximum with no guard. A vector list whose maximum
  certainty is zero or absent therefore does not contribute 0: the quotient is
  \<open>0 / 0\<close>, and the fused score of the entry is \<open>NaN\<close>.
\<close>

theorem fuseSearchResults_absent_certainty_NaN:
  "fuseSearchResults
     [\<lparr>content = ''VAT is 20%'', filename = ''tax.pdf'', pageNumber = 1, chunkIndex = 0,
       importance = None, wordCount = None, certainty = None, distance = None,
       score = None\<rparr>] [] 0.7 5 =
   [\<lparr>row = \<lparr>content = ''VAT is 20%'', filename = ''tax.pdf'', pageNumber = 1,
            chunkIndex = 0, importance = None, wordCount = None, certainty = None,
            distance = None, score = None\<rparr>,
     hybridScore = NaN, vectorScore = NaN, keywordScore = Num 0,
     vectorRank = Some 1, keywordRank = None\<rparr>]"
  by (simp add: fuseSearchResults_def fusedEntries_def maxCertainty_def maxBM25Score_def
        vectorEntry_def orZero_def map_values_def js_sort_def js_slice0_def Let_def)

subsection \<open>The sort, when every score is a number\<close>

lemma js_insort_insort_key:
  assumes "\<forall>r\<in>set (x # ys). \<exists>v. hybridScore r = Num v"
  shows "js_insort byHybridScore x ys =
         insort_key (\<lambda>r. case hybridScore r of Num v \<Rightarrow> - v | _ \<Rightarrow> 0) x ys"
  using assms
proof (induction ys)
  case Nil
  then show ?case by simp
next
  case (Cons y ys)
  from Cons.prems obtain vx vy where v: "hybridScore x = Num vx" "hybridScore y = Num vy"
    by auto
  from Cons.prems have "\<forall>r\<in>set (x # ys). \<exists>v. hybridScore r = Num v" by simp
  from Cons.IH[OF this] v show ?case
    by (auto simp: byHybridScore_def js_sub_def)
qed

lemma set_js_insort: "set (js_insort cmp x ys) = insert x (set ys)"
  by (induction ys) auto

lemma set_js_sort: "set (js_sort cmp xs) = set xs"
  by (induction xs) (simp_all add: js_sort_def set_js_insort)

lemma js_sort_sort_key:
  assumes "\<forall>r\<in>set xs. \<exists>v. hybridScore r = Num v"
  shows "js_sort byHybridScore xs =
         sort_key (\<lambda>r. case hybridScore r of Num v \<Rightarrow> - v | _ \<Rightarrow> 0) xs"
  using assms
proof (induction xs)
  case Nil
  then show ?case by (simp add: js_sort_def)
next
  case (Cons x xs)
  then have IH: "js_sort byHybridScore xs =
         sort_key (\<lambda>r. case hybridScore r of Num v \<Rightarrow> - v | _ \<Rightarrow> 0) xs" by simp
  have "\<forall>r\<in>set (x # js_sort byHybridScore xs). \<exists>v. hybridScore r = Num v"
    using Cons.prems by (simp add: set_js_sort)
  from js_insort_insort_key[OF this] IH show ?case
    by (simp add: js_sort_def)
qed

lemma insort_key_ties:
  assumes "\<forall>y\<in>set ys. R x y"
    and "sorted_wrt (\<lambda>a b. f a = f b \<longrightarrow> R a b) ys"
  shows "sorted_wrt (\<lambda>a b. f a = f b \<longrightarrow> R a b) (insort_key f x ys)"
  using assms
proof (induction ys)
  case Nil
  then show ?case by simp
next
  case (Cons y ys)
  show ?case
  proof (cases "f x \<le> f y")
    case True
    with Cons.prems show ?thesis by simp
  next
    case False
    have "sorted_wrt (\<lambda>a b. f a = f b \<longrightarrow> R a b) (insort_key f x ys)"
      using Cons.IH Cons.prems by simp
    moreover have "\<forall>z\<in>set (insort_key f x ys). f y = f z \<longrightarrow> R y z"
      using Cons.prems(2) False by (auto simp: set_insort_key)
    ultimately show ?thesis using False by simp
  qed
qed

lemma sort_key_ties:
  "sorted_wrt R xs \<Longrightarrow> sorted_wrt (\<lambda>a b. f a = f b \<longrightarrow> R a b) (sort_key f xs)"
proof (induction xs)
  case Nil
  then show ?case by simp
next
  case (Cons x xs)
  then have "sorted_wrt (\<lambda>a b. f a = f b \<longrightarrow> R a b) (sort_key f xs)"
    and "\<forall>y\<in>set (sort_key f xs). R x y"
    by simp_all
  then show ?case by (simp add: insort_key_ties)
qed

subsection \<open>The entries of the map\<close>

lemma map_set_subset: "set (map_set k v m) \<subseteq> insert (k, v) (set m)"
  by (induction m) (auto split: if_splits)

lemma map_set_absent: "k \<notin> fst ` set m \<Longrightarrow> map_set k v m = m @ [(k, v)]"
  by (induction m) auto

lemma math_max_Num: "xs \<noteq> [] \<Longrightarrow> \<exists>m. math_max xs = Num m"
  by (cases xs) simp_all

lemma keywordNormalized_Num: "\<exists>x. keywordNormalized maxB r = Num x"
  by (cases maxB) (simp_all add: keywordNormalized_def)

lemma addVectorResults_Num:
  assumes "c \<noteq> 0"
    and "\<forall>e\<in>snd ` set m. \<exists>x. hybridScore e = Num x"
  shows "\<forall>e\<in>snd ` set (addVectorResults (Num c) w rs idx m). \<exists>x. hybridScore e = Num x"
  using assms(2)
proof (induction rs arbitrary: idx m)
  case Nil
  then show ?case by simp
next
  case (Cons r rs)
  have "\<exists>x. hybridScore (vectorEntry (Num c) w r idx) = Num x"
    using assms(1) by (simp add: vectorEntry_def Let_def)
  with Cons.prems map_set_subset[of "resultKey r" "vectorEntry (Num c) w r idx" m]
  have "\<forall>e\<in>snd ` set (map_set (resultKey r) (vectorEntry (Num c) w r idx) m).
          \<exists>x. hybridScore e = Num x"
    by fastforce
  from Cons.IH[OF this] show ?case by simp
qed

lemma mergeKeywordResult_Num:
  assumes "\<forall>e\<in>snd ` set m. \<exists>x. hybridScore e = Num x"
  shows "\<forall>e\<in>snd ` set (mergeKeywordResult maxB kw r idx m). \<exists>x. hybridScore e = Num x"
proof -
  obtain n where n: "keywordNormalized maxB r = Num n"
    using keywordNormalized_Num by blast
  show ?thesis
  proof (cases "map_of m (resultKey r)")
    case None
    then have eq: "mergeKeywordResult maxB kw r idx m =
        map_set (resultKey r)
          \<lparr>row = r, hybridScore = Num (n * kw), vectorScore = Num 0, keywordScore = Num n,
           vectorRank = None, keywordRank = Some (idx + 1)\<rparr> m"
      by (simp add: mergeKeywordResult_def Let_def n)
    show ?thesis unfolding eq
      using assms map_set_subset[of "resultKey r" _ m] by fastforce
  next
    case (Some existing)
    then have "(resultKey r, existing) \<in> set m" by (rule map_of_SomeD)
    with assms obtain x where x: "hybridScore existing = Num x" by force
    from Some have eq: "mergeKeywordResult maxB kw r idx m =
        map_set (resultKey r)
          (existing\<lparr>hybridScore := Num (x + n * kw), keywordScore := Num n,
                     keywordRank := Some (idx + 1)\<rparr>) m"
      by (simp add: mergeKeywordResult_def Let_def n x)
    show ?thesis unfolding eq
      using assms map_set_subset[of "resultKey r" _ m] by fastforce
  qed
qed

lemma addKeywordResults_Num:
  "\<forall>e\<in>snd ` set m. \<exists>x. hybridScore e = Num x \<Longrightarrow>
   \<forall>e\<in>snd ` set (addKeywordResults maxB kw rs idx m). \<exists>x. hybridScore e = Num x"
proof (induction rs arbitrary: idx m)
  case Nil
  then show ?case by simp
next
  case (Cons r rs)
  from Cons.IH[OF mergeKeywordResult_Num[OF Cons.prems]] show ?case by simp
qed

lemma fusedEntries_Num:
  assumes "vectorResults = [] \<or> maxCertainty vectorResults \<noteq> Num 0"
  shows "\<forall>e\<in>set (fusedEntries vectorResults keywordResults w). \<exists>x. hybridScore e = Num x"
proof -
  let ?m1 = "addVectorResults (maxCertainty vectorResults) w vectorResults 0 []"
  have "\<forall>e\<in>snd ` set ?m1. \<exists>x. hybridScore e = Num x"
  proof (cases "vectorResults = []")
    case True
    then show ?thesis by simp
  next
    case False
    then obtain c where c: "maxCertainty vectorResults = Num c"
      using math_max_Num[of "map (\<lambda>r. orZero (certainty r)) vectorResults"]
      by (auto simp: maxCertainty_def)
    with assms False have "c \<noteq> 0" by simp
    from addVectorResults_Num[OF this, of "[]"] c show ?thesis by simp
  qed
  from addKeywordResults_Num[OF this] show ?thesis
    by (simp add: fusedEntries_def Let_def map_values_def)
qed

subsection \<open>Insertion order and ranks\<close>

lemma rankBefore_left:
  "vectorRank a = Some i \<Longrightarrow> vectorRank a' = Some i \<Longrightarrow> rankBefore a x = rankBefore a' x"
  by (simp add: rankBefore_def)

lemma rankBefore_right:
  "vectorRank b = Some i \<Longrightarrow> vectorRank b' = Some i \<Longrightarrow> rankBefore x b = rankBefore x b'"
  by (simp add: rankBefore_def split: option.splits)

lemma addVectorResults_ranked:
  assumes "distinct (map resultKey rs)"
    and "\<forall>r\<in>set rs. resultKey r \<notin> fst ` set m"
    and "sorted_wrt rankBefore (map snd m)"
    and "\<forall>e\<in>snd ` set m. \<exists>j. vectorRank e = Some j \<and> j \<le> idx"
  shows "sorted_wrt rankBefore (map snd (addVectorResults maxC w rs idx m)) \<and>
         (\<forall>e\<in>snd ` set (addVectorResults maxC w rs idx m). vectorRank e \<noteq> None)"
  using assms
proof (induction rs arbitrary: idx m)
  case Nil
  then show ?case by auto
next
  case (Cons r rs)
  let ?e = "vectorEntry maxC w r idx"
  let ?m = "map_set (resultKey r) ?e m"
  have key: "resultKey r \<notin> fst ` set m" using Cons.prems(2) by simp
  then have m': "?m = m @ [(resultKey r, ?e)]" by (rule map_set_absent)
  have rank: "vectorRank ?e = Some (idx + 1)" by (simp add: vectorEntry_def Let_def)
  have 1: "distinct (map resultKey rs)" using Cons.prems(1) by simp
  have 2: "\<forall>r'\<in>set rs. resultKey r' \<notin> fst ` set ?m"
    using Cons.prems(1,2) unfolding m' by (auto simp: image_iff)
  have "\<forall>e\<in>snd ` set m. rankBefore e ?e"
    using Cons.prems(4) rank by (fastforce simp: rankBefore_def)
  then have 3: "sorted_wrt rankBefore (map snd ?m)"
    using Cons.prems(3) unfolding m' by (simp add: sorted_wrt_append)
  have 4: "\<forall>e\<in>snd ` set ?m. \<exists>j. vectorRank e = Some j \<and> j \<le> idx + 1"
    using Cons.prems(4) rank unfolding m' by fastforce
  from Cons.IH[OF 1 2 3 4] show ?case by simp
qed

lemma map_set_replace_ranked:
  assumes "sorted_wrt rankBefore (map snd m)"
    and "map_of m k = Some e"
    and "vectorRank e = Some i"
    and "vectorRank e' = Some i"
  shows "sorted_wrt rankBefore (map snd (map_set k e' m))"
  using assms(1,2)
proof (induction m)
  case Nil
  then show ?case by simp
next
  case (Cons p m)
  obtain k' v' where p: "p = (k', v')" by (cases p)
  show ?case
  proof (cases "k' = k")
    case True
    with Cons.prems(2) p have "v' = e" by simp
    with Cons.prems(1) p have "\<forall>x\<in>set (map snd m). rankBefore e x"
      and "sorted_wrt rankBefore (map snd m)" by simp_all
    then have "\<forall>x\<in>set (map snd m). rankBefore e' x"
      using rankBefore_left[OF assms(3) assms(4)] by simp
    with \<open>sorted_wrt rankBefore (map snd m)\<close> True p show ?thesis by simp
  next
    case False
    with Cons.prems p have mo: "map_of m k = Some e"
      and sm: "sorted_wrt rankBefore (map snd m)"
      and all: "\<forall>x\<in>set (map snd m). rankBefore v' x"
      by simp_all
    from mo have "e \<in> snd ` set m" by (force dest: map_of_SomeD)
    with all have "rankBefore v' e" by auto
    then have ve': "rankBefore v' e'"
      using rankBefore_right[OF assms(3) assms(4)] by simp
    have "\<forall>x\<in>snd ` set (map_set k e' m). rankBefore v' x"
      using map_set_subset[of k e' m] all ve' by fastforce
    with Cons.IH[OF sm mo] False p show ?thesis by simp
  qed
qed

lemma mergeKeywordResult_ranked:
  assumes "sorted_wrt rankBefore (map snd m)"
    and "\<forall>(k, e)\<in>set m. vectorRank e = None \<longrightarrow>
           k \<notin> resultKey ` set (r # rs) \<and> (\<exists>j. keywordRank e = Some j \<and> j \<le> idx)"
    and "distinct (map resultKey (r # rs))"
  shows "sorted_wrt rankBefore (map snd (mergeKeywordResult maxB kw r idx m)) \<and>
         (\<forall>(k, e)\<in>set (mergeKeywordResult maxB kw r idx m). vectorRank e = None \<longrightarrow>
           k \<notin> resultKey ` set rs \<and> (\<exists>j. keywordRank e = Some j \<and> j \<le> idx + 1))"
proof (cases "map_of m (resultKey r)")
  case None
  let ?n = "\<lparr>row = r,
             hybridScore = js_mul (keywordNormalized maxB r) (Num kw),
             vectorScore = Num 0, keywordScore = keywordNormalized maxB r,
             vectorRank = None, keywordRank = Some (idx + 1)\<rparr>"
  from None have absent: "resultKey r \<notin> fst ` set m"
    by (simp add: map_of_eq_None_iff)
  from None have eq: "mergeKeywordResult maxB kw r idx m = m @ [(resultKey r, ?n)]"
    by (simp add: mergeKeywordResult_def Let_def map_set_absent[OF absent])
  have "\<forall>e\<in>snd ` set m. rankBefore e ?n"
  proof
    fix e assume "e \<in> snd ` set m"
    then obtain k where ke: "(k, e) \<in> set m" by auto
    show "rankBefore e ?n"
    proof (cases "vectorRank e")
      case None
      with assms(2) ke obtain j where "keywordRank e = Some j" "j \<le> idx" by fastforce
      with None show ?thesis by (simp add: rankBefore_def)
    next
      case (Some i)
      then show ?thesis by (simp add: rankBefore_def)
    qed
  qed
  then have a: "sorted_wrt rankBefore (map snd (m @ [(resultKey r, ?n)]))"
    using assms(1) by (simp add: sorted_wrt_append)
  have b: "\<forall>(k, e)\<in>set (m @ [(resultKey r, ?n)]). vectorRank e = None \<longrightarrow>
           k \<notin> resultKey ` set rs \<and> (\<exists>j. keywordRank e = Some j \<and> j \<le> idx + 1)"
  proof (clarify)
    fix k e assume ke: "(k, e) \<in> set (m @ [(resultKey r, ?n)])" and none: "vectorRank e = None"
    show "k \<notin> resultKey ` set rs \<and> (\<exists>j. keywordRank e = Some j \<and> j \<le> idx + 1)"
    proof (cases "(k, e) \<in> set m")
      case True
      with assms(2) none obtain j where "k \<notin> resultKey ` set (r # rs)"
        "keywordRank e = Some j" "j \<le> idx" by fastforce
      then show ?thesis by auto
    next
      case False
      with ke have "k = resultKey r" "e = ?n" by auto
      moreover have "resultKey r \<notin> resultKey ` set rs" using assms(3) by simp
      ultimately show ?thesis by simp
    qed
  qed
  from a b show ?thesis unfolding eq by blast
next
  case (Some existing)
  let ?u = "existing\<lparr>hybridScore :=
                js_add (hybridScore existing) (js_mul (keywordNormalized maxB r) (Num kw)),
              keywordScore := keywordNormalized maxB r,
              keywordRank := Some (idx + 1)\<rparr>"
  from Some have eq: "mergeKeywordResult maxB kw r idx m = map_set (resultKey r) ?u m"
    by (simp add: mergeKeywordResult_def Let_def)
  from Some have mem: "(resultKey r, existing) \<in> set m" by (rule map_of_SomeD)
  with assms(2) have "vectorRank existing \<noteq> None" by fastforce
  then obtain i where i: "vectorRank existing = Some i" by auto
  then have i': "vectorRank ?u = Some i" by simp
  have a: "sorted_wrt rankBefore (map snd (map_set (resultKey r) ?u m))"
    by (rule map_set_replace_ranked[OF assms(1) Some i i'])
  have b: "\<forall>(k, e)\<in>set (map_set (resultKey r) ?u m). vectorRank e = None \<longrightarrow>
           k \<notin> resultKey ` set rs \<and> (\<exists>j. keywordRank e = Some j \<and> j \<le> idx + 1)"
  proof (clarify)
    fix k e assume ke: "(k, e) \<in> set (map_set (resultKey r) ?u m)" and none: "vectorRank e = None"
    from ke map_set_subset[of "resultKey r" ?u m] have "(k, e) = (resultKey r, ?u) \<or> (k, e) \<in> set m"
      by auto
    with none i' have "(k, e) \<in> set m" by auto
    with assms(2) none obtain j where "k \<notin> resultKey ` set (r # rs)"
      "keywordRank e = Some j" "j \<le> idx" by fastforce
    then show "k \<notin> resultKey ` set rs \<and> (\<exists>j. keywordRank e = Some j \<and> j \<le> idx + 1)"
      by auto
  qed
  from a b show ?thesis unfolding eq by blast
qed

lemma addKeywordResults_ranked:
  assumes "sorted_wrt rankBefore (map snd m)"
    and "\<forall>(k, e)\<in>set m. vectorRank e = None \<longrightarrow>
           k \<notin> resultKey ` set rs \<and> (\<exists>j. keywordRank e = Some j \<and> j \<le> idx)"
    and "distinct (map resultKey rs)"
  shows "sorted_wrt rankBefore (map snd (addKeywordResults maxB kw rs idx m))"
  using assms
proof (induction rs arbitrary: idx m)
  case Nil
  then show ?case by simp
next
  case (Cons r rs)
  note ab = mergeKeywordResult_ranked[OF Cons.prems(1) Cons.prems(2) Cons.prems(3), of maxB kw]
  have a: "sorted_wrt rankBefore (map snd (mergeKeywordResult maxB kw r idx m))"
    using ab by (rule conjunct1)
  have b: "\<forall>(k, e)\<in>set (mergeKeywordResult maxB kw r idx m). vectorRank e = None \<longrightarrow>
           k \<notin> resultKey ` set rs \<and> (\<exists>j. keywordRank e = Some j \<and> j \<le> idx + 1)"
    using ab by (rule conjunct2)
  have c: "distinct (map resultKey rs)" using Cons.prems(3) by simp
  from Cons.IH[OF a b c] show ?case by simp
qed

lemma fusedEntries_ranked:
  assumes "distinct (map resultKey vectorResults)"
    and "distinct (map resultKey keywordResults)"
  shows "sorted_wrt rankBefore (fusedEntries vectorResults keywordResults w)"
proof -
  let ?m1 = "addVectorResults (maxCertainty vectorResults) w vectorResults 0 []"
  have "sorted_wrt rankBefore (map snd ?m1) \<and> (\<forall>e\<in>snd ` set ?m1. vectorRank e \<noteq> None)"
    by (rule addVectorResults_ranked[OF assms(1)]) simp_all
  then have a: "sorted_wrt rankBefore (map snd ?m1)"
    and b: "\<forall>(k, e)\<in>set ?m1. vectorRank e = None \<longrightarrow>
           k \<notin> resultKey ` set keywordResults \<and> (\<exists>j. keywordRank e = Some j \<and> j \<le> 0)"
    by force+
  from addKeywordResults_ranked[OF a b assms(2)] show ?thesis
    by (simp add: fusedEntries_def Let_def map_values_def)
qed

text \<open>
  Claim C2, as the code has it. The code sorts the entries of the map by the fused score
  alone, with the stable sort of the language, and cuts the list with
  \<open>slice(0, limit)\<close>; it compares no ranks. When no fused score is \<open>NaN\<close> (the vector
  list is empty or its maximum certainty is not zero), the output is in descending order
  of fused score, entries of equal score keep the insertion order of the map, and the
  output is the front of the sorted list, of \<open>limit\<close> entries when \<open>limit\<close> is not
  negative and that many exist. When, in addition, no key occurs twice in the vector
  list or twice in the keyword list, the insertion order agrees with the ranks: of two
  entries of equal score the one with the smaller vector rank comes first, an entry with
  a vector rank comes before one without, and two entries without a vector rank come in
  the order of their keyword ranks.
\<close>

theorem fuseSearchResults_order:
  assumes "vectorResults = [] \<or> maxCertainty vectorResults \<noteq> Num 0"
  shows
    "sorted_wrt (\<lambda>a b. case (hybridScore a, hybridScore b) of
                          (Num x, Num y) \<Rightarrow> y \<le> x | _ \<Rightarrow> False)
       (fuseSearchResults vectorResults keywordResults vectorWeight limit) \<and>
     (\<forall>s. filter (\<lambda>r. hybridScore r = s)
             (js_sort byHybridScore (fusedEntries vectorResults keywordResults vectorWeight)) =
          filter (\<lambda>r. hybridScore r = s)
             (fusedEntries vectorResults keywordResults vectorWeight)) \<and>
     (\<exists>rest. js_sort byHybridScore (fusedEntries vectorResults keywordResults vectorWeight) =
          fuseSearchResults vectorResults keywordResults vectorWeight limit @ rest) \<and>
     (0 \<le> limit \<longrightarrow>
        length (fuseSearchResults vectorResults keywordResults vectorWeight limit) =
        min (nat limit) (length (fusedEntries vectorResults keywordResults vectorWeight))) \<and>
     (distinct (map resultKey vectorResults) \<longrightarrow> distinct (map resultKey keywordResults) \<longrightarrow>
        sorted_wrt (\<lambda>a b. hybridScore a = hybridScore b \<longrightarrow> rankBefore a b)
          (fuseSearchResults vectorResults keywordResults vectorWeight limit))"
proof -
  define entries where "entries = fusedEntries vectorResults keywordResults vectorWeight"
  define f where "f = (\<lambda>r::fused_result. case hybridScore r of Num v \<Rightarrow> - v | _ \<Rightarrow> (0::real))"
  define srt where "srt = js_sort byHybridScore entries"
  define out where "out = fuseSearchResults vectorResults keywordResults vectorWeight limit"
  have num: "\<forall>e\<in>set entries. \<exists>x. hybridScore e = Num x"
    unfolding entries_def by (rule fusedEntries_Num[OF assms])
  have srt: "srt = sort_key f entries"
    unfolding srt_def f_def by (rule js_sort_sort_key[OF num])
  have num': "\<forall>e\<in>set srt. \<exists>x. hybridScore e = Num x"
    using num by (simp add: srt)
  have "\<exists>n. out = take n srt"
    unfolding out_def fuseSearchResults_def js_slice0_def srt_def entries_def
    by (cases "limit < 0") auto
  then obtain n where out: "out = take n srt" ..
  \<comment> \<open>descending order\<close>
  have "sorted (map f srt)" by (simp add: srt)
  then have "sorted_wrt (\<lambda>a b. f a \<le> f b) srt" by (simp add: sorted_map)
  then have "sorted_wrt (\<lambda>a b. case (hybridScore a, hybridScore b) of
                          (Num x, Num y) \<Rightarrow> y \<le> x | _ \<Rightarrow> False) srt"
  proof (rule sorted_wrt_mono_rel[rotated])
    fix a b assume "a \<in> set srt" "b \<in> set srt" "f a \<le> f b"
    moreover from this num' obtain x y where "hybridScore a = Num x" "hybridScore b = Num y"
      by blast
    ultimately show "case (hybridScore a, hybridScore b) of
                          (Num x, Num y) \<Rightarrow> y \<le> x | _ \<Rightarrow> False"
      by (simp add: f_def)
  qed
  then have A: "sorted_wrt (\<lambda>a b. case (hybridScore a, hybridScore b) of
                          (Num x, Num y) \<Rightarrow> y \<le> x | _ \<Rightarrow> False) out"
    unfolding out by (rule sorted_wrt_take)
  \<comment> \<open>stability\<close>
  have B: "filter (\<lambda>r. hybridScore r = s) srt = filter (\<lambda>r. hybridScore r = s) entries" for s
  proof (cases s)
    case (Num x)
    have "filter (\<lambda>r. hybridScore r = s) srt = filter (\<lambda>r. f r = - x) srt"
      using num' Num by (intro filter_cong) (auto simp: f_def)
    also have "\<dots> = filter (\<lambda>r. f r = - x) entries"
      unfolding srt by (rule sort_key_stable)
    also have "\<dots> = filter (\<lambda>r. hybridScore r = s) entries"
      using num Num by (intro filter_cong) (auto simp: f_def)
    finally show ?thesis .
  next
    case PosInf
    with num num' have "filter (\<lambda>r. hybridScore r = s) srt = []"
      "filter (\<lambda>r. hybridScore r = s) entries = []"
      by (auto simp: filter_empty_conv)
    then show ?thesis by simp
  next
    case NegInf
    with num num' have "filter (\<lambda>r. hybridScore r = s) srt = []"
      "filter (\<lambda>r. hybridScore r = s) entries = []"
      by (auto simp: filter_empty_conv)
    then show ?thesis by simp
  next
    case NaN
    with num num' have "filter (\<lambda>r. hybridScore r = s) srt = []"
      "filter (\<lambda>r. hybridScore r = s) entries = []"
      by (auto simp: filter_empty_conv)
    then show ?thesis by simp
  qed
  \<comment> \<open>truncation\<close>
  have "srt = out @ drop n srt" by (simp add: out)
  then have C: "\<exists>rest. srt = out @ rest" ..
  have D: "length out = min (nat limit) (length entries)" if "0 \<le> limit"
    using that
    by (simp add: out_def fuseSearchResults_def js_slice0_def srt_def[symmetric]
          entries_def[symmetric] srt)
  \<comment> \<open>ties and ranks\<close>
  have E: "sorted_wrt (\<lambda>a b. hybridScore a = hybridScore b \<longrightarrow> rankBefore a b) out"
    if "distinct (map resultKey vectorResults)" "distinct (map resultKey keywordResults)"
  proof -
    have "sorted_wrt rankBefore entries"
      unfolding entries_def by (rule fusedEntries_ranked[OF that])
    then have "sorted_wrt (\<lambda>a b. f a = f b \<longrightarrow> rankBefore a b) srt"
      unfolding srt by (rule sort_key_ties)
    then have "sorted_wrt (\<lambda>a b. hybridScore a = hybridScore b \<longrightarrow> rankBefore a b) srt"
      by (rule sorted_wrt_mono_rel[rotated]) (simp add: f_def)
    then show ?thesis unfolding out by (rule sorted_wrt_take)
  qed
  from A B C D E show ?thesis
    unfolding out_def srt_def entries_def by blast
qed

theorem fuseSearchResults_order_witness:
  "maxCertainty
     [\<lparr>content = ''A'', filename = ''a.pdf'', pageNumber = 1, chunkIndex = 0,
       importance = None, wordCount = None, certainty = Some 0.8, distance = None,
       score = None\<rparr>,
      \<lparr>content = ''B'', filename = ''b.pdf'', pageNumber = 1, chunkIndex = 0,
       importance = None, wordCount = None, certainty = Some 0.4, distance = None,
       score = None\<rparr>] \<noteq> Num 0 \<and>
   distinct (map resultKey
     [\<lparr>content = ''A'', filename = ''a.pdf'', pageNumber = 1, chunkIndex = 0,
       importance = None, wordCount = None, certainty = Some 0.8, distance = None,
       score = None\<rparr>,
      \<lparr>content = ''B'', filename = ''b.pdf'', pageNumber = 1, chunkIndex = 0,
       importance = None, wordCount = None, certainty = Some 0.4, distance = None,
       score = None\<rparr>]) \<and>
   distinct (map resultKey
     [\<lparr>content = ''C'', filename = ''c.pdf'', pageNumber = 1, chunkIndex = 0,
       importance = None, wordCount = None, certainty = None, distance = None,
       score = Some 7\<rparr>,
      \<lparr>content = ''B'', filename = ''b.pdf'', pageNumber = 1, chunkIndex = 0,
       importance = None, wordCount = None, certainty = None, distance = None,
       score = Some 7\<rparr>]) \<and>
   map (\<lambda>r. (filename (row r), hybridScore r, vectorRank r, keywordRank r))
     (fuseSearchResults
        [\<lparr>content = ''A'', filename = ''a.pdf'', pageNumber = 1, chunkIndex = 0,
          importance = None, wordCount = None, certainty = Some 0.8, distance = None,
          score = None\<rparr>,
         \<lparr>content = ''B'', filename = ''b.pdf'', pageNumber = 1, chunkIndex = 0,
          importance = None, wordCount = None, certainty = Some 0.4, distance = None,
          score = None\<rparr>]
        [\<lparr>content = ''C'', filename = ''c.pdf'', pageNumber = 1, chunkIndex = 0,
          importance = None, wordCount = None, certainty = None, distance = None,
          score = Some 7\<rparr>,
         \<lparr>content = ''B'', filename = ''b.pdf'', pageNumber = 1, chunkIndex = 0,
          importance = None, wordCount = None, certainty = None, distance = None,
          score = Some 7\<rparr>] 0.5 2) =
     [(''b.pdf'', Num 0.75, Some 2, Some 2), (''a.pdf'', Num 0.5, Some 1, None)]"
proof -
  let ?a = "\<lparr>content = ''A'', filename = ''a.pdf'', pageNumber = 1, chunkIndex = 0,
       importance = None, wordCount = None, certainty = Some 0.8, distance = None,
       score = None\<rparr>"
  let ?b = "\<lparr>content = ''B'', filename = ''b.pdf'', pageNumber = 1, chunkIndex = 0,
       importance = None, wordCount = None, certainty = Some 0.4, distance = None,
       score = None\<rparr>"
  let ?c = "\<lparr>content = ''C'', filename = ''c.pdf'', pageNumber = 1, chunkIndex = 0,
       importance = None, wordCount = None, certainty = None, distance = None,
       score = Some 7\<rparr>"
  let ?b' = "\<lparr>content = ''B'', filename = ''b.pdf'', pageNumber = 1, chunkIndex = 0,
       importance = None, wordCount = None, certainty = None, distance = None,
       score = Some 7\<rparr>"
  have h: "[?a, ?b] = [] \<or> maxCertainty [?a, ?b] \<noteq> Num 0"
    by (simp add: maxCertainty_def orZero_def)
  have k: "map resultKey [?a, ?b] = [''a.pdf_1_0'', ''b.pdf_1_0'']"
    "map resultKey [?c, ?b'] = [''c.pdf_1_0'', ''b.pdf_1_0'']"
    by (simp_all add: resultKey_def showInt_def)
  have e: "map (\<lambda>r. (filename (row r), hybridScore r, vectorRank r, keywordRank r))
     (fuseSearchResults [?a, ?b] [?c, ?b'] 0.5 2) =
     [(''b.pdf'', Num 0.75, Some 2, Some 2), (''a.pdf'', Num 0.5, Some 1, None)]"
    by (simp add: fuseSearchResults_def fusedEntries_def maxCertainty_def maxBM25Score_def
          vectorEntry_def mergeKeywordResult_def keywordNormalized_def orZero_def
          map_values_def js_sort_def js_slice0_def byHybridScore_def js_sub_def Let_def k[simplified])
  from fuseSearchResults_order[OF h, of "[?c, ?b']" "0.5" 2] h k e
  show ?thesis by simp
qed

text \<open>
  The claim as the specification words it fails: when a key occurs twice in the vector
  list, the entry keeps the place of the first occurrence and takes the rank of the
  last, so of two entries with the same fused score the one of vector rank 3 comes
  before the one of vector rank 2.
\<close>

theorem fuseSearchResults_tie_against_rank:
  "map (\<lambda>r. (resultKey (row r), hybridScore r, vectorRank r))
     (fuseSearchResults
        [\<lparr>content = ''A'', filename = ''a.pdf'', pageNumber = 1, chunkIndex = 0,
          importance = None, wordCount = None, certainty = Some 0.5, distance = None,
          score = None\<rparr>,
         \<lparr>content = ''B'', filename = ''b.pdf'', pageNumber = 1, chunkIndex = 0,
          importance = None, wordCount = None, certainty = Some 1, distance = None,
          score = None\<rparr>,
         \<lparr>content = ''A'', filename = ''a.pdf'', pageNumber = 1, chunkIndex = 0,
          importance = None, wordCount = None, certainty = Some 1, distance = None,
          score = None\<rparr>] [] 0.7 5) =
   [(''a.pdf_1_0'', Num 0.7, Some 3), (''b.pdf_1_0'', Num 0.7, Some 2)]"
proof -
  have k: "resultKey \<lparr>content = ''A'', filename = ''a.pdf'', pageNumber = 1, chunkIndex = 0,
          importance = None, wordCount = None, certainty = c, distance = None,
          score = None\<rparr> = ''a.pdf_1_0''"
    "resultKey \<lparr>content = ''B'', filename = ''b.pdf'', pageNumber = 1, chunkIndex = 0,
          importance = None, wordCount = None, certainty = c, distance = None,
          score = None\<rparr> = ''b.pdf_1_0''" for c
    by (simp_all add: resultKey_def showInt_def)
  show ?thesis
    by (simp add: fuseSearchResults_def fusedEntries_def maxCertainty_def maxBM25Score_def
          vectorEntry_def orZero_def map_values_def js_sort_def js_slice0_def
          byHybridScore_def js_sub_def Let_def k)
qed

section \<open>Properties of ranking and diversification\<close>

lemma js_split_ws_nonempty: "js_split_ws s \<noteq> []"
  by (induction s rule: js_split_ws.induct) (auto split: list.splits)

text \<open>
  Claim C3, as the code has it. The relevance score is at most 1 for every result and
  every query: the only clamp is \<open>Math.min(score, 1.0)\<close>. It is at least 0, and so in
  the interval from 0 to 1, when the distance is absent or at most 1 and the importance
  is absent or not negative.
\<close>

theorem calculateRelevanceScore_bounds:
  "calculateRelevanceScore result query \<le> 1 \<and>
   (orZero (distance result) \<le> 1 \<longrightarrow> 0 \<le> orZero (importance result) \<longrightarrow>
    0 \<le> calculateRelevanceScore result query)"
proof -
  define score0 where "score0 =
    (case distance result of Some d \<Rightarrow> if d \<noteq> 0 then 1 - d else 0.5 | None \<Rightarrow> (0.5::real))"
  define queryWords where "queryWords = js_split_ws (js_toLowerCase query)"
  define contentWords where "contentWords = js_toLowerCase (content result)"
  define keywordMatches where
    "keywordMatches = length (filter (\<lambda>word. js_includes contentWords word) queryWords)"
  define score1 where
    "score1 = score0 + (real keywordMatches / real (length queryWords)) * 0.3"
  define score2 where "score2 =
    (case importance result of Some i \<Rightarrow> if i \<noteq> 0 then score1 + i * 0.2 else score1
     | None \<Rightarrow> score1)"
  define score3 where "score3 =
    (if js_includes contentWords (js_toLowerCase query) then score2 + 0.3 else score2)"
  define wc where "wc =
    (case wordCount result of
       Some n \<Rightarrow> if n \<noteq> 0 then n else int (length (js_split_ws (content result)))
     | None \<Rightarrow> int (length (js_split_ws (content result))))"
  define score4 where "score4 = (if wc < 20 \<or> wc > 500 then score3 * 0.8 else score3)"
  have eq: "calculateRelevanceScore result query = min score4 1"
    unfolding calculateRelevanceScore_def Let_def score4_def wc_def score3_def score2_def
      score1_def keywordMatches_def contentWords_def queryWords_def score0_def
    by simp
  have upper: "calculateRelevanceScore result query \<le> 1" by (simp add: eq)
  have lower: "0 \<le> calculateRelevanceScore result query"
    if d: "orZero (distance result) \<le> 1" and i: "0 \<le> orZero (importance result)"
  proof -
    have s0: "0 \<le> score0"
      using d by (auto simp: score0_def orZero_def split: option.splits)
    have "0 \<le> real keywordMatches / real (length queryWords)" by simp
    then have s1: "0 \<le> score1" using s0 by (simp add: score1_def)
    have s2: "0 \<le> score2"
      using i s1 by (auto simp: score2_def orZero_def split: option.splits)
    have s3: "0 \<le> score3" using s2 by (simp add: score3_def)
    have s4: "0 \<le> score4" using s3 by (simp add: score4_def)
    then show ?thesis by (simp add: eq)
  qed
  from upper lower show ?thesis by blast
qed

theorem calculateRelevanceScore_bounds_witness:
  "orZero (Some (1/5)) \<le> (1::real) \<and> (0::real) \<le> orZero (Some (1/2)) \<and>
   calculateRelevanceScore
     \<lparr>content = ''the Quick brown fox'', filename = ''a.pdf'', pageNumber = 1, chunkIndex = 0,
      importance = Some (1/2), wordCount = None, certainty = None, distance = Some (1/5),
      score = None\<rparr> ''quick  fox'' = 24 / 25"
proof -
  let ?r = "\<lparr>content = ''the Quick brown fox'', filename = ''a.pdf'', pageNumber = 1,
      chunkIndex = 0, importance = Some (1/2), wordCount = None, certainty = None,
      distance = Some (1/5), score = None\<rparr>"
  have v: "calculateRelevanceScore ?r ''quick  fox'' = 24 / 25"
    by (simp add: calculateRelevanceScore_def Let_def js_toLowerCase_def toLowerChar_def
          upperChars_def lowerChars_def isWhiteSpace_def)
  from calculateRelevanceScore_bounds[of ?r "''quick  fox''"] v
  show ?thesis by (simp add: orZero_def)
qed

text \<open>
  The claim as the specification words it fails: a cosine distance of 2 with no boost
  gives the score \<open>-1\<close>.
\<close>

theorem calculateRelevanceScore_negative:
  "calculateRelevanceScore
     \<lparr>content = ''x'', filename = ''a.pdf'', pageNumber = 1, chunkIndex = 0,
      importance = None, wordCount = Some 100, certainty = None, distance = Some 2,
      score = None\<rparr> ''y'' = - 1"
  by (simp add: calculateRelevanceScore_def Let_def js_toLowerCase_def toLowerChar_def
        upperChars_def lowerChars_def isWhiteSpace_def)

subsection \<open>Diversification\<close>

lemma diversify_loop_sorted:
  "sorted_wrt (\<lambda>selected candidate.
       \<not> js_gt (calculateTextSimilarity (content candidate) (content selected)) (Num t)) ds \<Longrightarrow>
   sorted_wrt (\<lambda>selected candidate.
       \<not> js_gt (calculateTextSimilarity (content candidate) (content selected)) (Num t))
     (diversify_loop t cs ds)"
proof (induction cs arbitrary: ds)
  case Nil
  then show ?case by simp
next
  case (Cons c cs)
  show ?case
  proof (cases "shouldInclude t ds c")
    case True
    then have "\<forall>s\<in>set ds. \<not> js_gt (calculateTextSimilarity (content c) (content s)) (Num t)"
      by (simp add: shouldInclude_def list_ex_iff)
    with Cons.prems have "sorted_wrt (\<lambda>selected candidate.
       \<not> js_gt (calculateTextSimilarity (content candidate) (content selected)) (Num t)) (ds @ [c])"
      by (simp add: sorted_wrt_append)
    from Cons.IH[OF this] True show ?thesis by simp
  next
    case False
    with Cons.IH[OF Cons.prems] show ?thesis by simp
  qed
qed

lemma diversify_loop_keeps: "set ds \<subseteq> set (diversify_loop t cs ds)"
proof (induction cs arbitrary: ds)
  case Nil
  then show ?case by simp
next
  case (Cons c cs)
  have "set ds \<subseteq> set (ds @ [c])" by auto
  with Cons.IH[of ds] Cons.IH[of "ds @ [c]"] show ?case by auto
qed

lemma diversify_loop_rejected:
  "c \<in> set cs \<Longrightarrow>
   c \<in> set (diversify_loop t cs ds) \<or>
   (\<exists>s\<in>set (diversify_loop t cs ds).
      js_gt (calculateTextSimilarity (content c) (content s)) (Num t))"
proof (induction cs arbitrary: ds)
  case Nil
  then show ?case by simp
next
  case (Cons x cs)
  show ?case
  proof (cases "c = x")
    case True
    show ?thesis
    proof (cases "shouldInclude t ds x")
      case True
      have "x \<in> set (diversify_loop t cs (ds @ [x]))"
        using diversify_loop_keeps[of "ds @ [x]" t cs] by auto
      with True \<open>c = x\<close> show ?thesis by simp
    next
      case False
      then obtain s where s: "s \<in> set ds"
        "js_gt (calculateTextSimilarity (content x) (content s)) (Num t)"
        by (auto simp: shouldInclude_def list_ex_iff)
      have "s \<in> set (diversify_loop t cs ds)"
        using s(1) diversify_loop_keeps[of ds t cs] by auto
      with s(2) False \<open>c = x\<close> show ?thesis by auto
    qed
  next
    case False
    with Cons.prems have "c \<in> set cs" by simp
    from Cons.IH[OF this, of ds] Cons.IH[OF this, of "ds @ [x]"] show ?thesis by simp
  qed
qed

lemma diversify_loop_subset: "set (diversify_loop t cs ds) \<subseteq> set ds \<union> set cs"
proof (induction cs arbitrary: ds)
  case Nil
  then show ?case by simp
next
  case (Cons c cs)
  from Cons.IH[of ds] Cons.IH[of "ds @ [c]"] show ?case by auto
qed

lemma calculateTextSimilarity_cases:
  "calculateTextSimilarity a b = NaN \<or>
   (\<exists>s. calculateTextSimilarity a b = Num s \<and> 0 \<le> s \<and> s \<le> 1)"
proof -
  define words1 where "words1 = remdups (js_match_words (js_toLowerCase a))"
  define words2 where "words2 = remdups (js_match_words (js_toLowerCase b))"
  define i where "i = length (filter (\<lambda>x. x \<in> set words2) words1)"
  define u where "u = length (remdups (words1 @ words2))"
  have eq: "calculateTextSimilarity a b = js_div (Num (real i)) (Num (real u))"
    unfolding calculateTextSimilarity_def Let_def i_def u_def words1_def words2_def by simp
  have "i \<le> length words1" by (simp add: i_def)
  also have "length words1 = card (set words1)"
    by (simp add: words1_def length_remdups_card_conv)
  also have "\<dots> \<le> card (set words1 \<union> set words2)"
    by (intro card_mono) auto
  also have "\<dots> = u" by (simp add: u_def length_remdups_card_conv)
  finally have iu: "i \<le> u" .
  show ?thesis
  proof (cases "u = 0")
    case True
    with iu have "i = 0" by simp
    with True show ?thesis by (simp add: eq)
  next
    case False
    with iu have "js_div (Num (real i)) (Num (real u)) = Num (real i / real u)"
      "0 \<le> real i / real u" "real i / real u \<le> 1"
      by simp_all
    then show ?thesis by (simp add: eq)
  qed
qed

lemma calculateTextSimilarity_commute:
  "calculateTextSimilarity a b = calculateTextSimilarity b a"
proof -
  define words1 where "words1 = remdups (js_match_words (js_toLowerCase a))"
  define words2 where "words2 = remdups (js_match_words (js_toLowerCase b))"
  have d: "distinct words1" "distinct words2" by (simp_all add: words1_def words2_def)
  have "length (filter (\<lambda>x. x \<in> set words2) words1) = card (set words1 \<inter> set words2)"
    using d(1) by (simp add: distinct_length_filter Int_def conj_commute)
  moreover have "length (filter (\<lambda>x. x \<in> set words1) words2) = card (set words1 \<inter> set words2)"
    using d(2) by (simp add: distinct_length_filter Int_def)
  moreover have "length (remdups (words1 @ words2)) = length (remdups (words2 @ words1))"
    by (simp add: length_remdups_card_conv Un_commute)
  ultimately show ?thesis
    unfolding calculateTextSimilarity_def Let_def words1_def words2_def by simp
qed

lemma not_gt_similarity:
  "\<not> js_gt (calculateTextSimilarity a b) (Num t) \<Longrightarrow>
   (case calculateTextSimilarity a b of Num s \<Rightarrow> s \<le> t | NaN \<Rightarrow> True | _ \<Rightarrow> False)"
  using calculateTextSimilarity_cases[of a b] by auto

text \<open>
  Claim C4, as the code has it. A candidate is rejected only when its similarity to a
  result already admitted is greater than the threshold. So in the list returned no
  result is more similar than the threshold to any result admitted before it, the first
  one included: the similarity is at most the threshold, or it is \<open>0 / 0\<close> because
  neither text has a word token (the similarity of two texts does not depend on their
  order). Every result of the input is in the output or is more similar than the
  threshold to a result of the output, and the output holds results of the input only.
\<close>

theorem diversifyResults_at_most_threshold:
  "sorted_wrt (\<lambda>selected candidate.
       case calculateTextSimilarity (content candidate) (content selected) of
         Num s \<Rightarrow> s \<le> maxSimilarity | NaN \<Rightarrow> True | _ \<Rightarrow> False)
     (diversifyResults results maxSimilarity) \<and>
   (\<forall>c\<in>set results.
       c \<in> set (diversifyResults results maxSimilarity) \<or>
       (\<exists>s\<in>set (diversifyResults results maxSimilarity).
          js_gt (calculateTextSimilarity (content c) (content s)) (Num maxSimilarity))) \<and>
   set (diversifyResults results maxSimilarity) \<subseteq> set results"
proof (cases results)
  case Nil
  then show ?thesis by (simp add: diversifyResults_def)
next
  case (Cons r rs)
  show ?thesis
  proof (cases rs)
    case Nil
    with Cons show ?thesis by (simp add: diversifyResults_def)
  next
    case (Cons r' rs')
    with \<open>results = r # rs\<close> have out:
      "diversifyResults results maxSimilarity = diversify_loop maxSimilarity rs [r]"
      by (simp add: diversifyResults_def)
    have "sorted_wrt (\<lambda>selected candidate.
       \<not> js_gt (calculateTextSimilarity (content candidate) (content selected))
               (Num maxSimilarity)) (diversify_loop maxSimilarity rs [r])"
      by (rule diversify_loop_sorted) simp
    then have a: "sorted_wrt (\<lambda>selected candidate.
       case calculateTextSimilarity (content candidate) (content selected) of
         Num s \<Rightarrow> s \<le> maxSimilarity | NaN \<Rightarrow> True | _ \<Rightarrow> False)
       (diversify_loop maxSimilarity rs [r])"
      by (rule sorted_wrt_mono_rel[rotated]) (rule not_gt_similarity)
    have r: "r \<in> set (diversify_loop maxSimilarity rs [r])"
      using diversify_loop_keeps[of "[r]" maxSimilarity rs] by simp
    have b: "c \<in> set (diversify_loop maxSimilarity rs [r]) \<or>
       (\<exists>s\<in>set (diversify_loop maxSimilarity rs [r]).
          js_gt (calculateTextSimilarity (content c) (content s)) (Num maxSimilarity))"
      if "c \<in> set results" for c
    proof (cases "c = r")
      case True
      with r show ?thesis by simp
    next
      case False
      with that \<open>results = r # rs\<close> have "c \<in> set rs" by simp
      then show ?thesis by (rule diversify_loop_rejected)
    qed
    have c: "set (diversify_loop maxSimilarity rs [r]) \<subseteq> set results"
      using diversify_loop_subset[of maxSimilarity rs "[r]"] \<open>results = r # rs\<close> by auto
    from a b c show ?thesis unfolding out by blast
  qed
qed

theorem diversifyResults_at_most_threshold_witness:
  "diversifyResults
     [\<lparr>content = ''Tax law. Part A'', filename = ''a.pdf'', pageNumber = 1, chunkIndex = 0,
       importance = None, wordCount = None, certainty = None, distance = None, score = None\<rparr>,
      \<lparr>content = ''tax LAW part a'', filename = ''a.pdf'', pageNumber = 1, chunkIndex = 1,
       importance = None, wordCount = None, certainty = None, distance = None, score = None\<rparr>,
      \<lparr>content = ''Tax rates'', filename = ''b.pdf'', pageNumber = 2, chunkIndex = 0,
       importance = None, wordCount = None, certainty = None, distance = None, score = None\<rparr>]
     0.8 =
     [\<lparr>content = ''Tax law. Part A'', filename = ''a.pdf'', pageNumber = 1, chunkIndex = 0,
       importance = None, wordCount = None, certainty = None, distance = None, score = None\<rparr>,
      \<lparr>content = ''Tax rates'', filename = ''b.pdf'', pageNumber = 2, chunkIndex = 0,
       importance = None, wordCount = None, certainty = None, distance = None, score = None\<rparr>] \<and>
   calculateTextSimilarity ''Tax rates'' ''Tax law. Part A'' = Num (1 / 5) \<and>
   calculateTextSimilarity ''tax LAW part a'' ''Tax law. Part A'' = Num 1"
proof -
  let ?r1 = "\<lparr>content = ''Tax law. Part A'', filename = ''a.pdf'', pageNumber = 1,
       chunkIndex = 0, importance = None, wordCount = None, certainty = None,
       distance = None, score = None\<rparr>"
  let ?r2 = "\<lparr>content = ''tax LAW part a'', filename = ''a.pdf'', pageNumber = 1,
       chunkIndex = 1, importance = None, wordCount = None, certainty = None,
       distance = None, score = None\<rparr>"
  let ?r3 = "\<lparr>content = ''Tax rates'', filename = ''b.pdf'', pageNumber = 2,
       chunkIndex = 0, importance = None, wordCount = None, certainty = None,
       distance = None, score = None\<rparr>"
  have s31: "calculateTextSimilarity ''Tax rates'' ''Tax law. Part A'' = Num (1 / 5)"
    by (simp add: calculateTextSimilarity_def Let_def js_toLowerCase_def toLowerChar_def
          upperChars_def lowerChars_def isWordChar_def)
  have s21: "calculateTextSimilarity ''tax LAW part a'' ''Tax law. Part A'' = Num 1"
    by (simp add: calculateTextSimilarity_def Let_def js_toLowerCase_def toLowerChar_def
          upperChars_def lowerChars_def isWordChar_def)
  have out: "diversifyResults [?r1, ?r2, ?r3] 0.8 = [?r1, ?r3]"
    by (simp add: diversifyResults_def shouldInclude_def s31 s21)
  from diversifyResults_at_most_threshold[of "0.8" "[?r1, ?r2, ?r3]"] out s31 s21
  show ?thesis by simp
qed

text \<open>
  The claim as the specification words it fails: two results whose similarity is
  exactly the threshold, four shared words out of five, are both admitted.
\<close>

theorem diversifyResults_admits_equal:
  "calculateTextSimilarity ''a b c d e'' ''a b c d'' = Num 0.8 \<and>
   diversifyResults
     [\<lparr>content = ''a b c d'', filename = ''a.pdf'', pageNumber = 1, chunkIndex = 0,
       importance = None, wordCount = None, certainty = None, distance = None, score = None\<rparr>,
      \<lparr>content = ''a b c d e'', filename = ''a.pdf'', pageNumber = 1, chunkIndex = 1,
       importance = None, wordCount = None, certainty = None, distance = None, score = None\<rparr>]
     0.8 =
     [\<lparr>content = ''a b c d'', filename = ''a.pdf'', pageNumber = 1, chunkIndex = 0,
       importance = None, wordCount = None, certainty = None, distance = None, score = None\<rparr>,
      \<lparr>content = ''a b c d e'', filename = ''a.pdf'', pageNumber = 1, chunkIndex = 1,
       importance = None, wordCount = None, certainty = None, distance = None, score = None\<rparr>]"
proof -
  have s: "calculateTextSimilarity ''a b c d e'' ''a b c d'' = Num 0.8"
    by (simp add: calculateTextSimilarity_def Let_def js_toLowerCase_def toLowerChar_def
          upperChars_def lowerChars_def isWordChar_def)
  then show ?thesis by (simp add: diversifyResults_def shouldInclude_def)
qed

section \<open>Properties of synthesis\<close>

text \<open>
  Claim C9. Synthesis returns \<open>null\<close>, and so never the empty string, when the result
  list is missing or empty, whatever the collaborator would answer; and it returns
  \<open>null\<close> when the call to the collaborator fails.
\<close>

theorem synthesizeResults_null:
  "synthesizeResults None query openai = Inr Null \<and>
   synthesizeResults (Some []) query openai = Inr Null \<and>
   (groupByDocument results [] = Inr docGroups \<longrightarrow>
    openai (userMessage query (synthesisBlock docGroups)) = Rejected \<longrightarrow>
    synthesizeResults (Some results) query openai = Inr Null)"
  by (simp add: synthesizeResults_def)

theorem synthesizeResults_null_witness:
  "groupByDocument
     [\<lparr>content = ''VAT is 20%'', filename = ''tax.pdf'', pageNumber = 1, chunkIndex = 0,
       importance = None, wordCount = None, certainty = None, distance = None,
       score = None\<rparr>] [] =
   Inr [(''tax.pdf'',
         [\<lparr>content = ''VAT is 20%'', filename = ''tax.pdf'', pageNumber = 1, chunkIndex = 0,
           importance = None, wordCount = None, certainty = None, distance = None,
           score = None\<rparr>])] \<and>
   synthesizeResults
     (Some [\<lparr>content = ''VAT is 20%'', filename = ''tax.pdf'', pageNumber = 1, chunkIndex = 0,
             importance = None, wordCount = None, certainty = None, distance = None,
             score = None\<rparr>])
     ''what is VAT'' (\<lambda>message. Rejected) = Inr Null \<and>
   synthesizeResults (Some []) ''what is VAT'' (\<lambda>message. Completion (TextContent [])) =
     Inr Null"
proof -
  let ?r = "\<lparr>content = ''VAT is 20%'', filename = ''tax.pdf'', pageNumber = 1, chunkIndex = 0,
       importance = None, wordCount = None, certainty = None, distance = None,
       score = None\<rparr>"
  have g: "groupByDocument [?r] [] = Inr [(''tax.pdf'', [?r])]"
    by (simp add: inheritedKeys_def Let_def)
  have f: "(\<lambda>message. Rejected) (userMessage ''what is VAT'' (synthesisBlock [(''tax.pdf'', [?r])])) = Rejected"
    by simp
  from synthesizeResults_null[of "''what is VAT''" "\<lambda>message. Rejected" "[?r]" "[(''tax.pdf'', [?r])]"]
       synthesizeResults_null[of "''what is VAT''" "\<lambda>message. Completion (TextContent [])"]
       g f
  show ?thesis by simp
qed

section \<open>Properties of query expansion\<close>

lemma variations_try_shape:
  "variations_try q c = Inr r \<Longrightarrow> \<exists>vs. r = q # vs \<and> length vs \<le> 5"
  by (cases "(q, c)" rule: variations_try.cases) auto

text \<open>
  Claim C6. Expansion never raises: for every query and every outcome of the
  collaborator call it returns a list, the first element of that list is the original
  query, and when the call fails the list is exactly the original query alone.
\<close>

theorem generateQueryVariations_total_head:
  "(\<exists>vs. generateQueryVariations q c = Inr (q # vs)) \<and>
   generateQueryVariations q Rejected = Inr [q]"
proof -
  have "\<exists>vs. generateQueryVariations q c = Inr (q # vs)"
  proof (cases "variations_try q c")
    case (Inl e)
    then show ?thesis by (simp add: generateQueryVariations_def)
  next
    case (Inr r)
    then obtain vs where "r = q # vs" using variations_try_shape by blast
    with Inr show ?thesis by (simp add: generateQueryVariations_def)
  qed
  moreover have "generateQueryVariations q Rejected = Inr [q]"
    by (simp add: generateQueryVariations_def)
  ultimately show ?thesis by blast
qed

theorem generateQueryVariations_total_head_witness:
  "generateQueryVariations ''tax rules'' Rejected = Inr [''tax rules''] \<and>
   generateQueryVariations ''tax rules'' (Completion (TextContent ''1. tax law'')) =
     Inr [''tax rules'', ''tax law'']"
  using generateQueryVariations_total_head [of "''tax rules''" Rejected]
  by (simp add: generateQueryVariations_def stripNumbering_def js_trim_def
        isDigit_def isWhiteSpace_def)

text \<open>
  Claim C5, as the code has it. The list returned starts with the original query and
  goes on with at most five variants: the first five non-blank lines of the
  collaborator's text, each with a list number at its very start removed and then trimmed. The lines are
  taken as they come; none is dropped for being equal to another line or to the query.
\<close>

theorem generateQueryVariations_five_lines:
  "(\<exists>vs. generateQueryVariations q c = Inr (q # vs) \<and> length vs \<le> 5) \<and>
   generateQueryVariations q (Completion (TextContent s)) =
     Inr (q # take 5 (map (\<lambda>line. js_trim (stripNumbering line))
                       (filter (\<lambda>line. js_trim line \<noteq> []) (js_split_char (CHR 0x0A) s))))"
proof -
  have "\<exists>vs. generateQueryVariations q c = Inr (q # vs) \<and> length vs \<le> 5"
  proof (cases "variations_try q c")
    case (Inl e)
    then show ?thesis by (simp add: generateQueryVariations_def)
  next
    case (Inr r)
    then obtain vs where "r = q # vs" "length vs \<le> 5" using variations_try_shape by blast
    with Inr show ?thesis by (simp add: generateQueryVariations_def)
  qed
  then show ?thesis by (simp add: generateQueryVariations_def)
qed

theorem generateQueryVariations_five_lines_witness:
  "generateQueryVariations ''tax rules''
     (Completion (TextContent (''1. tax law'' @ [CHR 0x0A, CHR 0x0A] @ ''  2.   fiscal rules ''))) =
   Inr [''tax rules'', ''tax law'', ''2.   fiscal rules'']"
  using generateQueryVariations_five_lines
    [of "''tax rules''" Rejected "''1. tax law'' @ [CHR 0x0A, CHR 0x0A] @ ''  2.   fiscal rules ''"]
  by (simp add: stripNumbering_def js_trim_def isDigit_def isWhiteSpace_def)

text \<open>
  The claim as the specification words it fails: six lines from the collaborator give
  five variants, one of them the query itself and another equal to it up to case.
\<close>

theorem generateQueryVariations_five_duplicates:
  "generateQueryVariations ''tax''
     (Completion (TextContent
        (''1. Tax'' @ [CHR 0x0A] @ ''2. tax'' @ [CHR 0x0A] @ ''3. a'' @ [CHR 0x0A] @
         ''4. b'' @ [CHR 0x0A] @ ''5. c'' @ [CHR 0x0A] @ ''6. d''))) =
   Inr [''tax'', ''Tax'', ''tax'', ''a'', ''b'', ''c''] \<and>
   length [''Tax'', ''tax'', ''a'', ''b'', ''c''] = 5 \<and>
   js_toLowerCase ''Tax'' = js_toLowerCase ''tax''"
  by (simp add: generateQueryVariations_def stripNumbering_def js_trim_def isDigit_def
        isWhiteSpace_def js_toLowerCase_def toLowerChar_def upperChars_def lowerChars_def)


end
